theory Spec2Isabelle
  imports Main
begin

section \<open>Binary artifact loader: \<^verbatim>\<open>include/storage/io.hpp\<close>\<close>

text \<open>
  A shallow embedding of \<^verbatim>\<open>osrm::storage::io\<close>. A file is a sequence of bytes
  (C++ \<^verbatim>\<open>char\<close>, here \<^typ>\<open>char\<close>); an object of a trivially copyable type is
  read as the \<^verbatim>\<open>sizeof(T)\<close> bytes of its object representation. Exceptions and
  failed assertions are values of type \<open>error\<close>; a function that may throw returns
  \<open>error + result\<close>, with the updated file in the result because the stream
  is mutated through a reference. Values of \<^verbatim>\<open>std::size_t\<close> and \<^verbatim>\<open>std::uint64_t\<close>
  are natural numbers, and the one product the code computes on them,
  \<^verbatim>\<open>count * sizeof(T)\<close>, is reduced modulo \<open>2 ^ 64\<close>.
\<close>

subsection \<open>The input stream\<close>

text \<open>
  \<^verbatim>\<open>boost::filesystem::ifstream\<close>, opened in binary mode: the bytes of the file,
  the position of the stream buffer, and the two state bits the code can
  observe. \<^verbatim>\<open>badbit\<close> is never set on a regular file that has been opened and is
  left out.
\<close>

record ifstream =
  file_bytes :: string
  cursor :: nat
  eofbit :: bool
  failbit :: bool

definition good :: "ifstream \<Rightarrow> bool" where
  "good s = (\<not> eofbit s \<and> \<not> failbit s)"

definition slice :: "string \<Rightarrow> nat \<Rightarrow> nat \<Rightarrow> string" where
  "slice bs off n = take n (drop off bs)"

text \<open>
  \<^verbatim>\<open>istream::read(dest, n)\<close>, the count \<open>n\<close> being a signed
  \<^verbatim>\<open>std::streamsize\<close>: nothing is extracted from a stream that is not good (and
  \<^verbatim>\<open>failbit\<close> is set); otherwise up to \<open>n\<close> bytes are copied, none for a
  negative count, and when the number copied is not \<open>n\<close> both \<^verbatim>\<open>eofbit\<close> and
  \<^verbatim>\<open>failbit\<close> are set. The bytes returned are the ones stored into \<open>dest\<close>;
  their number is \<^verbatim>\<open>gcount()\<close>.
\<close>

definition istream_read :: "ifstream \<Rightarrow> int \<Rightarrow> string \<times> ifstream" where
  "istream_read s n =
     (if \<not> good s then ([], s\<lparr>failbit := True\<rparr>)
      else
        let extracted = slice (file_bytes s) (cursor s) (nat n) in
        if int (length extracted) \<noteq> n
        then (extracted, s\<lparr>cursor := cursor s + length extracted, eofbit := True, failbit := True\<rparr>)
        else (extracted, s\<lparr>cursor := cursor s + length extracted\<rparr>))"

text \<open>
  \<^verbatim>\<open>rdbuf()->pubseekoff(off, cur)\<close>, which is what \<^verbatim>\<open>boost::iostreams::seek\<close>
  calls on a standard stream. An offset of zero asks the file system nothing
  and leaves the stream as it is. Otherwise the position moves by the signed
  offset, also beyond the end of the file, unless the file system refuses the
  target: one that is negative, does not fit the signed 64-bit file offset, or
  lies above \<open>limit\<close>, the largest offset the file system accepts. A refused
  seek answers \<open>None\<close> and the position stays. The state bits of the stream
  are not consulted and not changed.
\<close>

definition pubseekoff_cur :: "nat \<Rightarrow> ifstream \<Rightarrow> int \<Rightarrow> ifstream option" where
  "pubseekoff_cur limit s off =
     (if off = 0 then Some s
      else
        let target = int (cursor s) + off in
        if 0 \<le> target \<and> target < 2 ^ 63 \<and> target \<le> int limit
        then Some (s\<lparr>cursor := nat target\<rparr>)
        else None)"

text \<open>
  The conversion of a \<^verbatim>\<open>std::size_t\<close> to a signed 64-bit integer, which both
  \<^verbatim>\<open>std::streamsize\<close> and \<^verbatim>\<open>stream_offset\<close> are.
\<close>

definition to_int64 :: "nat \<Rightarrow> int" where
  "to_int64 n = (if n < 2 ^ 63 then int n else int n - 2 ^ 64)"

subsection \<open>Errors and the environment\<close>

text \<open>
  \<^verbatim>\<open>util::exception\<close> carries its message. A failed \<^verbatim>\<open>BOOST_ASSERT\<close> ends the
  process; it carries the text of the assertion.
\<close>

datatype error = exception string | assertion_failure string

text \<open>
  Modelled from the spec: \<^verbatim>\<open>util::FingerPrint\<close> is declared in
  \<^verbatim>\<open>util/fingerprint.hpp\<close>, which is not part of the source at hand. The
  spec describes a fixed-size record holding a magic number and an
  independent version marker for each producing subsystem.
\<close>

record FingerPrint =
  magic_number :: nat
  graph_construction :: string
  contraction :: string
  spatial_index :: string
  query_object :: string

datatype dimension = GraphConstruction | Contraction | SpatialIndex | QueryObject

fun marker :: "dimension \<Rightarrow> FingerPrint \<Rightarrow> string" where
  "marker GraphConstruction fp = graph_construction fp"
| "marker Contraction fp = contraction fp"
| "marker SpatialIndex fp = spatial_index fp"
| "marker QueryObject fp = query_object fp"

text \<open>
  Modelled from the spec: \<open>validate(loaded, reference, dimensions)\<close> returns
  true iff the magic number matches and every requested dimension matches
  between \<open>loaded\<close> and \<open>reference\<close>; it never throws.
\<close>

definition validate :: "FingerPrint \<Rightarrow> FingerPrint \<Rightarrow> dimension list \<Rightarrow> bool" where
  "validate loaded reference dimensions =
     (magic_number loaded = magic_number reference \<and>
      list_all (\<lambda>d. marker d loaded = marker d reference) dimensions)"

text \<open>
  Modelled from the spec: the bodies of the five member tests of
  \<^verbatim>\<open>util::FingerPrint\<close> that the loader calls are missing. Each is \<open>validate\<close>
  at the dimensions the spec gives it. \<open>TestContractor\<close>, \<open>TestRTree\<close> and
  \<open>TestQueryObjects\<close> answer for the contraction, the spatial-index and the
  query-object dimension. The check at opening, which conjoins all five,
  covers every dimension, so the graph-construction dimension is with
  \<open>TestGraphUtil\<close>; and the header of the graph is read with a warning if the
  spatial-index/contraction dimension differs, which is the answer of
  \<open>TestGraphUtil\<close> again, so these two markers are with it as well.
\<close>

definition IsMagicNumberOK :: "FingerPrint \<Rightarrow> FingerPrint \<Rightarrow> bool" where
  "IsMagicNumberOK this other = validate other this []"

definition TestContractor :: "FingerPrint \<Rightarrow> FingerPrint \<Rightarrow> bool" where
  "TestContractor this other = validate other this [Contraction]"

definition TestGraphUtil :: "FingerPrint \<Rightarrow> FingerPrint \<Rightarrow> bool" where
  "TestGraphUtil this other = validate other this [GraphConstruction, SpatialIndex, Contraction]"

definition TestRTree :: "FingerPrint \<Rightarrow> FingerPrint \<Rightarrow> bool" where
  "TestRTree this other = validate other this [SpatialIndex]"

definition TestQueryObjects :: "FingerPrint \<Rightarrow> FingerPrint \<Rightarrow> bool" where
  "TestQueryObjects this other = validate other this [QueryObject]"

text \<open>
  The layout of a trivially copyable type whose declaration lies outside this
  file: its \<^verbatim>\<open>sizeof\<close> and the value denoted by an object representation.
\<close>

record 'a layout =
  sizeof :: nat
  decode :: "string \<Rightarrow> 'a"

definition layout_ok :: "'a layout \<Rightarrow> bool" where
  "layout_ok L = (0 < sizeof L \<and> sizeof L < 2 ^ 63)"

text \<open>
  \<^verbatim>\<open>extractor::OriginalEdgeData\<close>, \<^verbatim>\<open>extractor::QueryNode\<close> and \<^verbatim>\<open>util::Coordinate\<close>
  with the members the loader reads. Their member types are identifiers and
  small enumerations declared elsewhere; they are kept as numbers.
\<close>

record OriginalEdgeData =
  via_geometry :: nat
  name_id :: nat
  turn_instruction :: nat
  lane_data_id :: nat
  travel_mode :: nat
  entry_classid :: nat
  pre_turn_bearing :: nat
  post_turn_bearing :: nat

record QueryNode =
  lon :: int
  lat :: int
  node_id :: nat

datatype Coordinate = Coordinate int int

text \<open>
  What the code takes from outside this file: the text \<^verbatim>\<open>std::strerror(errno)\<close>
  yields for the error number as it stands, whether \<^verbatim>\<open>BOOST_ASSERT\<close> is compiled
  in (it expands to nothing in a build with \<^verbatim>\<open>NDEBUG\<close>), the fingerprint of the
  running build \<^verbatim>\<open>FingerPrint::GetValid()\<close>, the layouts of the three record
  types, \<^verbatim>\<open>Coordinate::IsValid\<close>, the largest offset the file system accepts
  in a seek, and the text of \<^verbatim>\<open>std::strerror\<close> for the error number
  \<^verbatim>\<open>EINVAL\<close> that a refused seek leaves behind.
\<close>

record env =
  strerror_errno :: string
  assertions :: bool
  GetValid :: FingerPrint
  fingerprint_layout :: "FingerPrint layout"
  edge_layout :: "OriginalEdgeData layout"
  node_layout :: "QueryNode layout"
  IsValid :: "Coordinate \<Rightarrow> bool"
  max_offset :: nat
  strerror_EINVAL :: string

subsection \<open>\<^verbatim>\<open>class File\<close>\<close>

record File =
  filename :: string
  input_stream :: ifstream

text \<open>
  \<^verbatim>\<open>File::readInto(T *dest, count)\<close> with \<open>sz = sizeof(T)\<close>. The result holds
  the bytes stored into \<open>dest\<close>.
\<close>

definition readInto :: "env \<Rightarrow> File \<Rightarrow> nat \<Rightarrow> nat \<Rightarrow> error + (string \<times> File)" where
  "readInto E f count sz =
     (if count = 0 then Inr ([], f)
      else
        let (dest, s) = istream_read (input_stream f) (to_int64 ((count * sz) mod 2 ^ 64));
            bytes_read = length dest;
            expected_bytes = (count * sz) mod 2 ^ 64
        in
          if bytes_read = 0
          then Inl (exception (''Error reading from '' @ filename f @ '': '' @ strerror_errno E))
          else if bytes_read < expected_bytes
          then Inl (exception (''Error reading from '' @ filename f @ '': Unexpected end of file''))
          else Inr (dest, f\<lparr>input_stream := s\<rparr>))"

text \<open>\<^verbatim>\<open>readInto(T &target)\<close> reads one object; \<^verbatim>\<open>readOne\<close> returns it by value.\<close>

definition readInto_ref :: "env \<Rightarrow> 'a layout \<Rightarrow> File \<Rightarrow> error + ('a \<times> File)" where
  "readInto_ref E L f =
     (case readInto E f 1 (sizeof L) of
        Inl e \<Rightarrow> Inl e
      | Inr (target, f') \<Rightarrow> Inr (decode L target, f'))"

definition readOne :: "env \<Rightarrow> 'a layout \<Rightarrow> File \<Rightarrow> error + ('a \<times> File)" where
  "readOne E L f =
     (case readInto_ref E L f of
        Inl e \<Rightarrow> Inl e
      | Inr (tmp, f') \<Rightarrow> Inr (tmp, f'))"

text \<open>
  \<^verbatim>\<open>File::skip<T>(element_count)\<close> with \<open>sz = sizeof(T)\<close>: the product is
  computed in \<^verbatim>\<open>std::size_t\<close> and passed as a signed stream offset. The
  answer of the seek is dropped, so a refused seek goes unnoticed; what it
  leaves is the file as it was and the error number of the refusal, which
  is why the environment is returned too.
\<close>

definition skip :: "env \<Rightarrow> File \<Rightarrow> nat \<Rightarrow> nat \<Rightarrow> env \<times> File" where
  "skip E f element_count sz =
     (case pubseekoff_cur (max_offset E) (input_stream f)
             (to_int64 ((element_count * sz) mod 2 ^ 64)) of
        Some s \<Rightarrow> (E, f\<lparr>input_stream := s\<rparr>)
      | None \<Rightarrow> (E\<lparr>strerror_errno := strerror_EINVAL E\<rparr>, f))"

text \<open>Unsigned integers of fixed width, least significant byte first.\<close>

fun le_decode :: "string \<Rightarrow> nat" where
  "le_decode [] = 0"
| "le_decode (c # cs) = of_char c + 256 * le_decode cs"

definition uint32_t :: "nat layout" where
  "uint32_t = \<lparr>sizeof = 4, decode = le_decode\<rparr>"

definition uint64_t :: "nat layout" where
  "uint64_t = \<lparr>sizeof = 8, decode = le_decode\<rparr>"

text \<open>The members \<^verbatim>\<open>File::readElementCount32\<close> and \<^verbatim>\<open>File::readElementCount64\<close>.\<close>

definition File_readElementCount32 :: "env \<Rightarrow> File \<Rightarrow> error + (nat \<times> File)" where
  "File_readElementCount32 E f = readOne E uint32_t f"

definition File_readElementCount64 :: "env \<Rightarrow> File \<Rightarrow> error + (nat \<times> File)" where
  "File_readElementCount64 E f = readOne E uint64_t f"

text \<open>
  Memory of which a prefix has been overwritten, and a buffer of \<open>count\<close>
  objects of \<open>sz\<close> bytes seen as the sequence of its objects.
\<close>

definition overlay :: "string \<Rightarrow> string \<Rightarrow> string" where
  "overlay new old = new @ drop (length new) old"

definition objects :: "nat \<Rightarrow> nat \<Rightarrow> string \<Rightarrow> string list" where
  "objects sz count bs = map (\<lambda>i. slice bs (i * sz) sz) [0..<count]"

text \<open>
  \<^verbatim>\<open>File::deserializeVector(std::vector<T> &data)\<close> with \<open>sz = sizeof(T)\<close>:
  \<^verbatim>\<open>resize(count)\<close> leaves \<open>count\<close> value-initialised objects, which the bulk
  read then overwrites. The vector is returned as the list of its objects,
  each one its \<open>sz\<close> bytes. The allocation done by \<^verbatim>\<open>resize\<close> is taken to
  succeed.
\<close>

definition deserializeVector :: "env \<Rightarrow> nat \<Rightarrow> File \<Rightarrow> error + (string list \<times> File)" where
  "deserializeVector E sz f =
     (case File_readElementCount64 E f of
        Inl e \<Rightarrow> Inl e
      | Inr (count, f1) \<Rightarrow>
          let data = replicate (count * sz) (CHR 0x00) in
          (case readInto E f1 count sz of
             Inl e \<Rightarrow> Inl e
           | Inr (dest, f2) \<Rightarrow> Inr (objects sz count (overlay dest data), f2)))"

definition readAndCheckFingerprint :: "env \<Rightarrow> File \<Rightarrow> error + (bool \<times> File)" where
  "readAndCheckFingerprint E f =
     (case readOne E (fingerprint_layout E) f of
        Inl e \<Rightarrow> Inl e
      | Inr (fingerprint, f') \<Rightarrow>
          let valid = GetValid E in
          Inr (IsMagicNumberOK valid fingerprint \<and> TestContractor valid fingerprint \<and>
               TestGraphUtil valid fingerprint \<and> TestRTree valid fingerprint \<and>
               TestQueryObjects valid fingerprint, f'))"

text \<open>
  The constructor \<^verbatim>\<open>File::File(filename, check_fingerprint)\<close>. The file system
  maps a path to the bytes of the file, or to nothing when the path cannot be
  opened.
\<close>

definition File_open :: "env \<Rightarrow> (string \<rightharpoonup> string) \<Rightarrow> string \<Rightarrow> bool \<Rightarrow> error + File" where
  "File_open E fs path check_fingerprint =
     (case fs path of
        None \<Rightarrow> Inl (exception (''Error opening '' @ path @ '':'' @ strerror_errno E))
      | Some bs \<Rightarrow>
          let f = \<lparr>filename = path,
                   input_stream = \<lparr>file_bytes = bs, cursor = 0, eofbit = False, failbit = False\<rparr>\<rparr>
          in
            if check_fingerprint
            then (case readAndCheckFingerprint E f of
                    Inl e \<Rightarrow> Inl e
                  | Inr (ok, f') \<Rightarrow>
                      if \<not> ok then Inl (exception (''Fingerprint mismatch in '' @ path))
                      else Inr f')
            else Inr f)"

text \<open>
  \<^verbatim>\<open>std::getline\<close>: on a stream that is not good nothing is extracted and
  \<^verbatim>\<open>failbit\<close> is set. Otherwise characters are taken up to a newline, which
  is consumed and not stored; reaching the end of the file sets \<^verbatim>\<open>eofbit\<close>, and
  \<^verbatim>\<open>failbit\<close> as well when nothing at all was extracted.
\<close>

definition getline :: "ifstream \<Rightarrow> string \<times> ifstream" where
  "getline s =
     (if \<not> good s then ([], s\<lparr>failbit := True\<rparr>)
      else
        let rest = drop (cursor s) (file_bytes s);
            line = takeWhile (\<lambda>c. c \<noteq> CHR 0x0A) rest
        in
          if length line < length rest
          then (line, s\<lparr>cursor := cursor s + length line + 1\<rparr>)
          else (line, s\<lparr>cursor := cursor s + length line, eofbit := True, failbit := (line = [])\<rparr>))"

text \<open>
  \<^verbatim>\<open>File::readLines\<close>. The stream never has exceptions enabled, so the handler
  of the source is not reached. Each line is also echoed to \<^verbatim>\<open>std::clog\<close>,
  which is no part of the state kept here.
\<close>

function readLines_loop :: "ifstream \<Rightarrow> string list \<Rightarrow> string list \<times> ifstream" where
  "readLines_loop s result =
     (case getline s of
        (thisline, s') \<Rightarrow>
          if failbit s' then (result, s') else readLines_loop s' (result @ [thisline]))"
  by pat_completeness auto
termination
  apply (relation "measure (\<lambda>(s, result). length (file_bytes s) - cursor s)")
   apply simp
  apply (simp add: getline_def Let_def split: if_splits)
  subgoal for s thisline
    by (cases "cursor s < length (file_bytes s)") simp_all
  done

definition readLines :: "File \<Rightarrow> string list \<times> File" where
  "readLines f =
     (case readLines_loop (input_stream f) [] of
        (result, s) \<Rightarrow> (result, f\<lparr>input_stream := s\<rparr>))"

subsection \<open>Free functions\<close>

text \<open>
  \<^verbatim>\<open>readElementCount64\<close> and \<^verbatim>\<open>readElementCount32\<close> on a bare stream: the
  variable starts as zero and the read overwrites as many of its bytes as the
  stream delivers. Nothing looks at the state of the stream afterwards.
\<close>

definition readElementCount64 :: "ifstream \<Rightarrow> nat \<times> ifstream" where
  "readElementCount64 s =
     (case istream_read s 8 of
        (dest, s') \<Rightarrow> (le_decode (overlay dest (replicate 8 (CHR 0x00))), s'))"

definition readElementCount32 :: "ifstream \<Rightarrow> nat \<times> ifstream" where
  "readElementCount32 s =
     (case istream_read s 4 of
        (dest, s') \<Rightarrow> (le_decode (overlay dest (replicate 4 (CHR 0x00))), s'))"

record HSGRHeader =
  checksum :: nat
  number_of_nodes :: nat
  number_of_edges :: nat

definition hsgr_warning :: string where
  "hsgr_warning =
     ''.hsgr was prepared with different build.'' @ [CHR 0x0A] @
     ''Reprocess to get rid of this warning.''"

text \<open>
  \<^verbatim>\<open>readHSGRHeader\<close>. The first component is what was written to the log at
  level warning, which is kept also when a later read throws.
\<close>

definition readHSGRHeader :: "env \<Rightarrow> File \<Rightarrow> string list \<times> (error + (HSGRHeader \<times> File))" where
  "readHSGRHeader E f =
     (let fingerprint_valid = GetValid E in
      case readOne E (fingerprint_layout E) f of
        Inl e \<Rightarrow> ([], Inl e)
      | Inr (fingerprint_loaded, f0) \<Rightarrow>
          (if \<not> TestGraphUtil fingerprint_loaded fingerprint_valid then [hsgr_warning] else [],
           case readInto_ref E uint32_t f0 of
             Inl e \<Rightarrow> Inl e
           | Inr (c, f1) \<Rightarrow>
               (case readInto_ref E uint64_t f1 of
                  Inl e \<Rightarrow> Inl e
                | Inr (n, f2) \<Rightarrow>
                    (case readInto_ref E uint64_t f2 of
                       Inl e \<Rightarrow> Inl e
                     | Inr (m, f3) \<Rightarrow>
                         if assertions E \<and> \<not> 0 \<noteq> n
                         then Inl (assertion_failure ''number of nodes is zero'')
                         else Inr (\<lparr>checksum = c, number_of_nodes = n, number_of_edges = m\<rparr>, f3)))))"

text \<open>
  The output arrays of \<^verbatim>\<open>readEdges\<close> are bare pointers into memory of the
  caller: each is a function from the index to the element stored there. The
  caller passes arrays that do not overlap, and none of them is null, so the
  assertions on the pointers hold.
\<close>

record edge_lists =
  geometry_list :: "nat \<Rightarrow> nat"
  name_id_list :: "nat \<Rightarrow> nat"
  turn_instruction_list :: "nat \<Rightarrow> nat"
  lane_data_id_list :: "nat \<Rightarrow> nat"
  travel_mode_list :: "nat \<Rightarrow> nat"
  entry_class_id_list :: "nat \<Rightarrow> nat"
  pre_turn_bearing_list :: "nat \<Rightarrow> nat"
  post_turn_bearing_list :: "nat \<Rightarrow> nat"

function readEdges_loop ::
  "env \<Rightarrow> File \<Rightarrow> edge_lists \<Rightarrow> nat \<Rightarrow> nat \<Rightarrow> error + (edge_lists \<times> File)" where
  "readEdges_loop E f b i edge_count =
     (if i < edge_count
      then (case readInto_ref E (edge_layout E) f of
              Inl e \<Rightarrow> Inl e
            | Inr (current_edge_data, f') \<Rightarrow>
                readEdges_loop E f'
                  (b\<lparr>geometry_list := (geometry_list b)(i := via_geometry current_edge_data),
                     name_id_list := (name_id_list b)(i := name_id current_edge_data),
                     turn_instruction_list :=
                       (turn_instruction_list b)(i := turn_instruction current_edge_data),
                     lane_data_id_list := (lane_data_id_list b)(i := lane_data_id current_edge_data),
                     travel_mode_list := (travel_mode_list b)(i := travel_mode current_edge_data),
                     entry_class_id_list :=
                       (entry_class_id_list b)(i := entry_classid current_edge_data),
                     pre_turn_bearing_list :=
                       (pre_turn_bearing_list b)(i := pre_turn_bearing current_edge_data),
                     post_turn_bearing_list :=
                       (post_turn_bearing_list b)(i := post_turn_bearing current_edge_data)\<rparr>)
                  (Suc i) edge_count)
      else Inr (b, f))"
  by pat_completeness auto
termination
  by (relation "measure (\<lambda>(E, f, b, i, edge_count). edge_count - i)") auto

definition readEdges :: "env \<Rightarrow> File \<Rightarrow> edge_lists \<Rightarrow> nat \<Rightarrow> error + (edge_lists \<times> File)" where
  "readEdges E f b edge_count = readEdges_loop E f b 0 edge_count"

text \<open>
  \<^verbatim>\<open>readNodes\<close>: the coordinates go to an array of the caller, the node
  identifiers are appended to a vector.
\<close>

function readNodes_loop ::
  "env \<Rightarrow> File \<Rightarrow> (nat \<Rightarrow> Coordinate) \<Rightarrow> nat list \<Rightarrow> nat \<Rightarrow> nat \<Rightarrow>
     error + ((nat \<Rightarrow> Coordinate) \<times> nat list \<times> File)" where
  "readNodes_loop E f coordinate_list osmnodeid_list i number_of_coordinates =
     (if i < number_of_coordinates
      then (case readInto_ref E (node_layout E) f of
              Inl e \<Rightarrow> Inl e
            | Inr (current_node, f') \<Rightarrow>
                if assertions E \<and>
                   \<not> IsValid E ((coordinate_list(i := Coordinate (lon current_node) (lat current_node))) i)
                then Inl (assertion_failure ''coordinate_list[i].IsValid()'')
                else readNodes_loop E f'
                       (coordinate_list(i := Coordinate (lon current_node) (lat current_node)))
                       (osmnodeid_list @ [node_id current_node])
                       (Suc i) number_of_coordinates)
      else Inr (coordinate_list, osmnodeid_list, f))"
  by pat_completeness auto
termination
  by (relation "measure (\<lambda>(E, f, c, l, i, number_of_coordinates). number_of_coordinates - i)") auto

definition readNodes ::
  "env \<Rightarrow> File \<Rightarrow> (nat \<Rightarrow> Coordinate) \<Rightarrow> nat list \<Rightarrow> nat \<Rightarrow>
     error + ((nat \<Rightarrow> Coordinate) \<times> nat list \<times> File)" where
  "readNodes E f coordinate_list osmnodeid_list number_of_coordinates =
     readNodes_loop E f coordinate_list osmnodeid_list 0 number_of_coordinates"

record DatasourceNamesData =
  names :: string
  offsets :: "nat list"
  lengths :: "nat list"

fun readDatasourceNames_loop :: "string list \<Rightarrow> DatasourceNamesData \<Rightarrow> DatasourceNamesData" where
  "readDatasourceNames_loop [] d = d"
| "readDatasourceNames_loop (name # lines) d =
     readDatasourceNames_loop lines
       (d\<lparr>offsets := offsets d @ [length (names d)],
          lengths := lengths d @ [length name],
          names := names d @ name\<rparr>)"

definition readDatasourceNames :: "File \<Rightarrow> DatasourceNamesData \<times> File" where
  "readDatasourceNames f =
     (case readLines f of
        (lines, f') \<Rightarrow>
          (readDatasourceNames_loop lines \<lparr>names = [], offsets = [], lengths = []\<rparr>, f'))"

subsection \<open>A small build and small files\<close>

text \<open>
  A concrete environment on which the functions can be run: one-byte members
  in every record, assertions compiled in, coordinates valid within 180 by 90
  on either side of zero, and a file system that accepts offsets up to
  \<open>2 ^ 44 - 4096\<close>.
\<close>

definition example_fingerprint :: FingerPrint where
  "example_fingerprint =
     \<lparr>magic_number = 77, graph_construction = ''g'', contraction = ''c'',
      spatial_index = ''t'', query_object = ''q''\<rparr>"

definition example_fingerprint_layout :: "FingerPrint layout" where
  "example_fingerprint_layout =
     \<lparr>sizeof = 5,
      decode = (\<lambda>bs. \<lparr>magic_number = le_decode (slice bs 0 1), graph_construction = slice bs 1 1,
                       contraction = slice bs 2 1, spatial_index = slice bs 3 1,
                       query_object = slice bs 4 1\<rparr>)\<rparr>"

definition example_edge_layout :: "OriginalEdgeData layout" where
  "example_edge_layout =
     \<lparr>sizeof = 8,
      decode = (\<lambda>bs. \<lparr>via_geometry = le_decode (slice bs 0 1), name_id = le_decode (slice bs 1 1),
                       turn_instruction = le_decode (slice bs 2 1),
                       lane_data_id = le_decode (slice bs 3 1),
                       travel_mode = le_decode (slice bs 4 1),
                       entry_classid = le_decode (slice bs 5 1),
                       pre_turn_bearing = le_decode (slice bs 6 1),
                       post_turn_bearing = le_decode (slice bs 7 1)\<rparr>)\<rparr>"

definition example_node_layout :: "QueryNode layout" where
  "example_node_layout =
     \<lparr>sizeof = 3,
      decode = (\<lambda>bs. \<lparr>lon = int (le_decode (slice bs 0 1)), lat = int (le_decode (slice bs 1 1)),
                       node_id = le_decode (slice bs 2 1)\<rparr>)\<rparr>"

fun example_IsValid :: "Coordinate \<Rightarrow> bool" where
  "example_IsValid (Coordinate x y) = (- 180 \<le> x \<and> x \<le> 180 \<and> - 90 \<le> y \<and> y \<le> 90)"

definition example_env :: env where
  "example_env =
     \<lparr>strerror_errno = ''Success'', assertions = True, GetValid = example_fingerprint,
      fingerprint_layout = example_fingerprint_layout, edge_layout = example_edge_layout,
      node_layout = example_node_layout, IsValid = example_IsValid,
      max_offset = 17592186040320, strerror_EINVAL = ''Invalid argument''\<rparr>"

definition release_env :: env where
  "release_env = example_env\<lparr>assertions := False\<rparr>"

definition file_of :: "string \<Rightarrow> string \<Rightarrow> File" where
  "file_of path bs =
     \<lparr>filename = path,
      input_stream = \<lparr>file_bytes = bs, cursor = 0, eofbit = False, failbit = False\<rparr>\<rparr>"

definition bytes_available :: "File \<Rightarrow> nat" where
  "bytes_available f = length (file_bytes (input_stream f)) - cursor (input_stream f)"

text \<open>The file with its position moved forward by \<open>n\<close> bytes.\<close>

definition advance :: "File \<Rightarrow> nat \<Rightarrow> File" where
  "advance f n = f\<lparr>input_stream := (input_stream f)\<lparr>cursor := cursor (input_stream f) + n\<rparr>\<rparr>"

text \<open>
  The writer's side of the length-prefix convention, which this file only
  reads: an unsigned integer in \<open>k\<close> bytes, least significant first, and a
  vector as its 8-byte element count followed by the objects.
\<close>

fun le_encode :: "nat \<Rightarrow> nat \<Rightarrow> string" where
  "le_encode 0 n = []"
| "le_encode (Suc k) n = char_of (n mod 256) # le_encode k (n div 256)"

definition serializeVector :: "string list \<Rightarrow> string" where
  "serializeVector records = le_encode 8 (length records) @ concat records"

text \<open>The 20 bytes of a graph header as a writer lays them out.\<close>

definition hsgr_header_bytes :: "nat \<Rightarrow> nat \<Rightarrow> nat \<Rightarrow> string" where
  "hsgr_header_bytes cs nodes edges = le_encode 4 cs @ le_encode 8 nodes @ le_encode 8 edges"

text \<open>
  The \<open>i\<close>-th object of a layout counted from the position of the file, the
  entries that the eight output arrays hold at one index, and the members of
  one edge record in the order of those arrays.
\<close>

definition object_at :: "'a layout \<Rightarrow> File \<Rightarrow> nat \<Rightarrow> 'a" where
  "object_at L f i =
     decode L (slice (file_bytes (input_stream f)) (cursor (input_stream f) + i * sizeof L) (sizeof L))"

definition arrays_at :: "edge_lists \<Rightarrow> nat \<Rightarrow> nat list" where
  "arrays_at b i =
     [geometry_list b i, name_id_list b i, turn_instruction_list b i, lane_data_id_list b i,
      travel_mode_list b i, entry_class_id_list b i, pre_turn_bearing_list b i,
      post_turn_bearing_list b i]"

definition edge_fields :: "OriginalEdgeData \<Rightarrow> nat list" where
  "edge_fields d =
     [via_geometry d, name_id d, turn_instruction d, lane_data_id d, travel_mode d,
      entry_classid d, pre_turn_bearing d, post_turn_bearing d]"

text \<open>Output arrays filled with zeros, and a file of two edge records.\<close>

definition zero_edge_lists :: edge_lists where
  "zero_edge_lists =
     \<lparr>geometry_list = (\<lambda>i. 0), name_id_list = (\<lambda>i. 0), turn_instruction_list = (\<lambda>i. 0),
      lane_data_id_list = (\<lambda>i. 0), travel_mode_list = (\<lambda>i. 0), entry_class_id_list = (\<lambda>i. 0),
      pre_turn_bearing_list = (\<lambda>i. 0), post_turn_bearing_list = (\<lambda>i. 0)\<rparr>"

definition example_edges_file :: File where
  "example_edges_file =
     file_of ''x.edges''
       [CHR 0x01, CHR 0x02, CHR 0x03, CHR 0x04, CHR 0x05, CHR 0x06, CHR 0x07, CHR 0x08,
        CHR 0x0B, CHR 0x0C, CHR 0x0D, CHR 0x0E, CHR 0x0F, CHR 0x10, CHR 0x11, CHR 0x12]"

text \<open>The coordinate that \<open>readNodes\<close> builds from the \<open>i\<close>-th node record.\<close>

definition coordinate_at :: "env \<Rightarrow> File \<Rightarrow> nat \<Rightarrow> Coordinate" where
  "coordinate_at E f i =
     Coordinate (lon (object_at (node_layout E) f i)) (lat (object_at (node_layout E) f i))"

text \<open>A coordinate array of zeros, a file of two valid nodes, and one whose second node lies outside the range.\<close>

definition zero_coordinates :: "nat \<Rightarrow> Coordinate" where
  "zero_coordinates = (\<lambda>i. Coordinate 0 0)"

definition example_nodes_file :: File where
  "example_nodes_file =
     file_of ''x.nodes'' [CHR 0x0A, CHR 0x14, CHR 0x07, CHR 0x1E, CHR 0x28, CHR 0x08]"

definition bad_nodes_file :: File where
  "bad_nodes_file =
     file_of ''x.nodes'' [CHR 0x0A, CHR 0x14, CHR 0x07, CHR 0xC8, CHR 0x00, CHR 0x08]"

text \<open>A listing of two datasource names.\<close>

definition example_names_file :: File where
  "example_names_file = file_of ''x.datasource_names'' (''osm'' @ [CHR 0x0A] @ ''lua profile'' @ [CHR 0x0A])"

declare readEdges_loop.simps [simp del] readNodes_loop.simps [simp del] readLines_loop.simps [simp del]

section \<open>Properties\<close>

subsection \<open>Reading succeeds exactly when the bytes are there\<close>

lemma length_slice: "length (slice bs off n) = min n (length bs - off)"
  by (simp add: slice_def)

lemma slice_Nil_iff: "slice bs off n = [] \<longleftrightarrow> n = 0 \<or> length bs \<le> off"
  by (simp add: slice_def)

lemma advance_simps [simp]:
  "filename (advance f n) = filename f"
  "file_bytes (input_stream (advance f n)) = file_bytes (input_stream f)"
  "cursor (input_stream (advance f n)) = cursor (input_stream f) + n"
  "good (input_stream (advance f n)) = good (input_stream f)"
  "bytes_available (advance f n) = bytes_available f - n"
  "advance (advance f n) m = advance f (n + m)"
  "advance f 0 = f"
  by (simp_all add: advance_def good_def bytes_available_def)

lemma to_int64_small: "n < 2 ^ 63 \<Longrightarrow> to_int64 (n mod 2 ^ 64) = int n"
  by (simp add: to_int64_def)

lemma readInto_small:
  "count * sz < 2 ^ 63 \<Longrightarrow>
   readInto E f count sz =
     (if count = 0 then Inr ([], f)
      else if \<not> good (input_stream f) \<or> bytes_available f = 0 \<or> sz = 0
      then Inl (exception (''Error reading from '' @ filename f @ '': '' @ strerror_errno E))
      else if bytes_available f < count * sz
      then Inl (exception (''Error reading from '' @ filename f @ '': Unexpected end of file''))
      else Inr (slice (file_bytes (input_stream f)) (cursor (input_stream f)) (count * sz),
                advance f (count * sz)))"
proof -
  define N where "N = count * sz"
  assume "count * sz < 2 ^ 63"
  then have m: "(count * sz) mod 2 ^ 64 = N" and c: "to_int64 N = int N"
    by (simp_all add: to_int64_def N_def)
  have z: "N = 0 \<longleftrightarrow> count = 0 \<or> sz = 0"
    by (simp add: N_def)
  show ?thesis
    unfolding readInto_def m c unfolding N_def [symmetric]
    using z
    by (auto simp: istream_read_def length_slice slice_Nil_iff Let_def min_def
        bytes_available_def advance_def split: prod.splits if_splits)
qed

lemma readInto_large:
  "2 ^ 63 \<le> count * sz \<Longrightarrow> count * sz < 2 ^ 64 \<Longrightarrow>
   readInto E f count sz =
     Inl (exception (''Error reading from '' @ filename f @ '': '' @ strerror_errno E))"
proof -
  define N where "N = count * sz"
  assume a: "2 ^ 63 \<le> count * sz" "count * sz < 2 ^ 64"
  have n: "2 ^ 63 \<le> N" "N < 2 ^ 64"
    using a by (simp_all add: N_def)
  have m: "(count * sz) mod 2 ^ 64 = N"
    using a by (simp add: N_def)
  have c: "to_int64 N < 0"
    using n by (simp add: to_int64_def)
  have z: "count \<noteq> 0"
    using a by (cases count) simp_all
  show ?thesis
    unfolding readInto_def m using c z
    by (auto simp: istream_read_def slice_def Let_def split: prod.splits if_splits)
qed

lemma readInto_nothing_left:
  "0 < count \<Longrightarrow> \<not> good (input_stream f) \<or> bytes_available f = 0 \<Longrightarrow>
   readInto E f count sz =
     Inl (exception (''Error reading from '' @ filename f @ '': '' @ strerror_errno E))"
  by (auto simp: readInto_def istream_read_def length_slice slice_Nil_iff Let_def
      bytes_available_def split: prod.splits if_splits)

lemma readInto_ok:
  "good (input_stream f) \<Longrightarrow> 0 < count \<Longrightarrow> 0 < sz \<Longrightarrow> count * sz < 2 ^ 63 \<Longrightarrow>
   count * sz \<le> bytes_available f \<Longrightarrow>
   readInto E f count sz =
     Inr (slice (file_bytes (input_stream f)) (cursor (input_stream f)) (count * sz),
          advance f (count * sz))"
proof -
  assume a: "good (input_stream f)" "0 < count" "0 < sz" "count * sz < 2 ^ 63"
    "count * sz \<le> bytes_available f"
  then have "0 < count * sz"
    by simp
  then have "0 < bytes_available f"
    using a(5) by linarith
  then show ?thesis
    using a by (simp add: readInto_small)
qed

lemma readInto_fail:
  "0 < count \<Longrightarrow> count * sz < 2 ^ 63 \<Longrightarrow> \<not> good (input_stream f) \<or> bytes_available f < count * sz \<Longrightarrow>
   \<exists>msg. readInto E f count sz = Inl (exception msg)"
  by (auto simp: readInto_small)

lemma readInto_ref_ok:
  "layout_ok L \<Longrightarrow> good (input_stream f) \<Longrightarrow> sizeof L \<le> bytes_available f \<Longrightarrow>
   readInto_ref E L f =
     Inr (decode L (slice (file_bytes (input_stream f)) (cursor (input_stream f)) (sizeof L)),
          advance f (sizeof L))"
  using readInto_ok [of f 1 "sizeof L" E]
  by (simp add: readInto_ref_def layout_ok_def)

lemma readInto_ref_fail:
  "layout_ok L \<Longrightarrow> \<not> good (input_stream f) \<or> bytes_available f < sizeof L \<Longrightarrow>
   \<exists>msg. readInto_ref E L f = Inl (exception msg)"
  using readInto_fail [of 1 "sizeof L" f E]
  by (auto simp add: readInto_ref_def layout_ok_def)

lemma readInto_ref_Inr_iff:
  "layout_ok L \<Longrightarrow>
   readInto_ref E L f = Inr r \<longleftrightarrow>
     good (input_stream f) \<and> sizeof L \<le> bytes_available f \<and>
     r = (decode L (slice (file_bytes (input_stream f)) (cursor (input_stream f)) (sizeof L)),
          advance f (sizeof L))"
  using readInto_ref_ok [of L f E] readInto_ref_fail [of L f E]
  by (cases "good (input_stream f) \<and> sizeof L \<le> bytes_available f") auto

lemma readOne_eq: "readOne E L f = readInto_ref E L f"
  by (simp add: readOne_def split: sum.splits)

lemma le_decode_le_encode: "n < 256 ^ k \<Longrightarrow> le_decode (le_encode k n) = n"
proof (induction k arbitrary: n)
  case 0
  then show ?case by simp
next
  case (Suc k)
  have "n div 256 < 256 ^ k"
    using Suc.prems by (simp add: less_mult_imp_div_less mult.commute)
  then show ?case
    using Suc.IH [of "n div 256"] by simp
qed

lemma length_le_encode [simp]: "length (le_encode k n) = k"
  by (induction k arbitrary: n) simp_all

lemma le_decode_append_zeros: "le_decode (bs @ replicate k (CHR 0x00)) = le_decode bs"
  by (induction bs) (simp_all, induction k, simp_all)

lemma objects_concat:
  "\<forall>r \<in> set records. length r = sz \<Longrightarrow>
   objects sz (length records) (concat records @ rest) = records"
proof (induction records arbitrary: rest rule: rev_induct)
  case Nil
  then show ?case by (simp add: objects_def)
next
  case (snoc r records)
  have len: "length (concat records) = length records * sz"
    using snoc.prems by (induction records) simp_all
  have a: "map (\<lambda>i. slice (concat records @ r @ rest) (i * sz) sz) [0..<length records] = records"
    using snoc.IH [of "r @ rest"] snoc.prems by (simp add: objects_def)
  have b: "slice (concat records @ r @ rest) (length records * sz) sz = r"
    using snoc.prems len by (simp add: slice_def)
  show ?case
    using a b by (simp add: objects_def)
qed

text \<open>
  C1, as stated, fails where \<open>count * sizeof(T)\<close> leaves the range of the
  signed 64-bit byte count. For \<open>2 ^ 63 + 1\<close> objects of two bytes the product
  wraps to 2, and on a file of five bytes the call returns with two bytes.
  For \<open>2 ^ 62\<close> objects of two bytes the byte count turns negative, nothing
  is extracted, and a file that holds three bytes is reported with the text
  of the zero-byte case.
\<close>

theorem readInto_wrapped_count_counterexample:
  "bytes_available (file_of ''a.bin'' ''abcde'') < 9223372036854775809 * 2 \<and>
   readInto example_env (file_of ''a.bin'' ''abcde'') 9223372036854775809 2 =
     Inr (''ab'', advance (file_of ''a.bin'' ''abcde'') 2) \<and>
   readInto example_env (file_of ''a.bin'' ''abc'') 4611686018427387904 2 =
     Inl (exception ''Error reading from a.bin: Success'')"
  by (simp add: readInto_def istream_read_def to_int64_def file_of_def advance_def good_def
      bytes_available_def slice_def example_env_def Let_def)

text \<open>
  C1, amended. A call of \<open>readInto\<close> for \<open>count > 0\<close> objects with
  \<open>count * sizeof(T)\<close> below \<open>2 ^ 64\<close>, on a stream that holds fewer than
  \<open>count * sizeof(T)\<close> bytes from its position, throws. With the product
  below \<open>2 ^ 63\<close>, as every destination that holds \<open>count\<close> objects has it,
  the text is that of \<^verbatim>\<open>strerror(errno)\<close> when no byte could be extracted and
  \<open>Unexpected end of file\<close> when some but not all could, and on the same file
  the two outcomes differ whenever \<^verbatim>\<open>strerror\<close> does not itself answer that
  phrase; a call that returns has stored exactly \<open>count * sizeof(T)\<close> bytes.
  A call with \<open>count = 0\<close> returns at once and leaves the file as it was.
\<close>

theorem readInto_short_read_fails:
  "(0 < count \<and> count * sz < 2 ^ 63 \<and> bytes_available f < count * sz \<longrightarrow>
      readInto E f count sz =
        Inl (exception (''Error reading from '' @ filename f @ '': '' @
          (if good (input_stream f) \<and> 0 < bytes_available f
           then ''Unexpected end of file'' else strerror_errno E)))) \<and>
   (0 < count \<and> count * sz < 2 ^ 63 \<and> filename g = filename f \<and>
    good (input_stream f) \<and> good (input_stream g) \<and>
    bytes_available f = 0 \<and> 0 < bytes_available g \<and> bytes_available g < count * sz \<and>
    strerror_errno E \<noteq> ''Unexpected end of file'' \<longrightarrow>
      readInto E f count sz \<noteq> readInto E g count sz) \<and>
   readInto E f 0 sz = Inr ([], f) \<and>
   (count * sz < 2 ^ 63 \<and> readInto E f count sz = Inr (dest, f') \<longrightarrow>
      length dest = count * sz) \<and>
   (0 < count \<and> count * sz < 2 ^ 64 \<and> bytes_available f < count * sz \<longrightarrow>
      (\<exists>msg. readInto E f count sz = Inl (exception msg)))"
proof (intro conjI impI)
  assume a: "0 < count \<and> count * sz < 2 ^ 64 \<and> bytes_available f < count * sz"
  show "\<exists>msg. readInto E f count sz = Inl (exception msg)"
  proof (cases "count * sz < 2 ^ 63")
    case True
    then show ?thesis
      using a readInto_fail [of count sz f E] by simp
  next
    case False
    then show ?thesis
      using a readInto_large [of count sz E f] by simp
  qed
next
  show "readInto E f 0 sz = Inr ([], f)"
    by (simp add: readInto_def)
next
  assume "count * sz < 2 ^ 63 \<and> readInto E f count sz = Inr (dest, f')"
  then show "length dest = count * sz"
    by (auto simp: readInto_small length_slice bytes_available_def split: if_splits)
next
  assume "0 < count \<and> count * sz < 2 ^ 63 \<and> bytes_available f < count * sz"
  then show "readInto E f count sz =
        Inl (exception (''Error reading from '' @ filename f @ '': '' @
          (if good (input_stream f) \<and> 0 < bytes_available f
           then ''Unexpected end of file'' else strerror_errno E)))"
    by (auto simp: readInto_small)
next
  assume "0 < count \<and> count * sz < 2 ^ 63 \<and> filename g = filename f \<and>
    good (input_stream f) \<and> good (input_stream g) \<and>
    bytes_available f = 0 \<and> 0 < bytes_available g \<and> bytes_available g < count * sz \<and>
    strerror_errno E \<noteq> ''Unexpected end of file''"
  moreover from this have "0 < sz"
    by (cases sz) simp_all
  ultimately show "readInto E f count sz \<noteq> readInto E g count sz"
    by (auto simp: readInto_small)
qed

theorem readInto_short_read_fails_witness:
  "readInto example_env (file_of ''a.bin'' ''abc'') 2 2 =
     Inl (exception ''Error reading from a.bin: Unexpected end of file'') \<and>
   readInto example_env (file_of ''a.bin'' []) 2 2 =
     Inl (exception ''Error reading from a.bin: Success'') \<and>
   readInto example_env (file_of ''a.bin'' []) 2 2 \<noteq>
     readInto example_env (file_of ''a.bin'' ''abc'') 2 2 \<and>
   readInto example_env (file_of ''a.bin'' ''abcde'') 2 2 =
     Inr (''abcd'', advance (file_of ''a.bin'' ''abcde'') 4)"
  using readInto_short_read_fails [of 2 2 "file_of ''a.bin'' ''abc''" example_env "file_of ''a.bin'' ''abc''"]
    readInto_short_read_fails [of 2 2 "file_of ''a.bin'' []" example_env "file_of ''a.bin'' ''abc''"]
    readInto_ok [of "file_of ''a.bin'' ''abcde''" 2 2 example_env]
  by (simp add: file_of_def example_env_def bytes_available_def good_def slice_def)

subsection \<open>Length-prefixed vectors\<close>

lemma File_readElementCount64_ok:
  "good (input_stream f) \<Longrightarrow> 8 \<le> bytes_available f \<Longrightarrow>
   File_readElementCount64 E f =
     Inr (le_decode (slice (file_bytes (input_stream f)) (cursor (input_stream f)) 8), advance f 8)"
  using readInto_ref_ok [of uint64_t f E]
  by (simp add: File_readElementCount64_def readOne_eq uint64_t_def layout_ok_def)

lemma slice_drop_append:
  "drop c bs = xs @ ys \<Longrightarrow> slice bs c (length xs) = xs"
  by (simp add: slice_def)

lemma slice_drop_append2:
  "drop c bs = xs @ ys @ zs \<Longrightarrow> slice bs (c + length xs) (length ys) = ys"
proof -
  assume a: "drop c bs = xs @ ys @ zs"
  have "drop (c + length xs) bs = drop (length xs) (drop c bs)"
    by (simp add: add.commute)
  then show ?thesis using a by (simp add: slice_def)
qed

lemma length_concat_fixed:
  "\<forall>r \<in> set records. length r = sz \<Longrightarrow> length (concat records) = length records * sz"
  by (induction records) simp_all

text \<open>
  C5. A vector of \<open>N\<close> objects of \<open>sizeof(T) = sz\<close> bytes written in the
  length-prefix convention (the count in 8 bytes, then the objects) is read
  back by \<open>deserializeVector\<close> as exactly those \<open>N\<close> objects, byte for byte,
  from any position of a good stream and whatever follows the vector; the
  count that was read sizes the vector and the bulk read alike, and the
  position ends \<open>8 + N * sz\<close> bytes further. For \<open>N = 0\<close> the result is the
  empty vector.
\<close>

theorem deserializeVector_roundtrip:
  "0 < sz \<and> (\<forall>r \<in> set records. length r = sz) \<and> length records * sz < 2 ^ 63 \<and>
   good (input_stream f) \<and>
   drop (cursor (input_stream f)) (file_bytes (input_stream f)) = serializeVector records @ rest \<longrightarrow>
     deserializeVector E sz f = Inr (records, advance f (8 + length records * sz))"
proof (intro impI, elim conjE)
  let ?N = "length records"
  let ?bs = "file_bytes (input_stream f)" and ?c = "cursor (input_stream f)"
  assume sz: "0 < sz" and len: "\<forall>r \<in> set records. length r = sz"
    and bound: "?N * sz < 2 ^ 63" and g: "good (input_stream f)"
    and fl: "drop ?c ?bs = serializeVector records @ rest"
  have file': "drop ?c ?bs = le_encode 8 ?N @ concat records @ rest"
    using fl by (simp add: serializeVector_def)
  have lc: "length (concat records) = ?N * sz"
    using len by (rule length_concat_fixed)
  have "length (drop ?c ?bs) = 8 + ?N * sz + length rest"
    unfolding file' using lc by simp
  then have avail: "bytes_available f = 8 + ?N * sz + length rest"
    by (simp add: bytes_available_def)
  have "?N \<le> ?N * sz"
    using sz by simp
  moreover have "?N * sz < 256 ^ 8"
    using bound by simp
  ultimately have "?N < 256 ^ 8"
    by (rule le_less_trans)
  then have dec: "le_decode (le_encode 8 ?N) = ?N"
    by (rule le_decode_le_encode)
  have "slice ?bs ?c (length (le_encode 8 ?N)) = le_encode 8 ?N"
    using file' by (rule slice_drop_append)
  then have cnt: "File_readElementCount64 E f = Inr (?N, advance f 8)"
    using File_readElementCount64_ok [of f E] g avail dec by simp
  show "deserializeVector E sz f = Inr (records, advance f (8 + ?N * sz))"
  proof (cases "?N = 0")
    case True
    then show ?thesis
      using cnt by (simp add: deserializeVector_def readInto_def objects_def)
  next
    case False
    have "slice ?bs (?c + length (le_encode 8 ?N)) (length (concat records)) = concat records"
      using file' by (rule slice_drop_append2)
    then have sl: "slice ?bs (?c + 8) (?N * sz) = concat records"
      using lc by simp
    have rd: "readInto E (advance f 8) ?N sz = Inr (concat records, advance f (8 + ?N * sz))"
      using readInto_ok [of "advance f 8" ?N sz E] False sz bound g avail sl by simp
    have "overlay (concat records) (replicate (?N * sz) (CHR 0x00)) = concat records @ []"
      using lc by (simp add: overlay_def)
    then have "objects sz ?N (overlay (concat records) (replicate (?N * sz) (CHR 0x00))) = records"
      using objects_concat [OF len, of "[]"] by simp
    then show ?thesis
      using cnt rd by (simp add: deserializeVector_def)
  qed
qed

theorem deserializeVector_roundtrip_witness:
  "deserializeVector example_env 2 (file_of ''v.bin'' (serializeVector [''ab'', ''cd''] @ ''xyz'')) =
     Inr ([''ab'', ''cd''], advance (file_of ''v.bin'' (serializeVector [''ab'', ''cd''] @ ''xyz'')) 12) \<and>
   deserializeVector example_env 2 (file_of ''v.bin'' (serializeVector [])) =
     Inr ([], advance (file_of ''v.bin'' (serializeVector [])) 8)"
  using deserializeVector_roundtrip [of 2 "[''ab'', ''cd'']" "file_of ''v.bin'' (serializeVector [''ab'', ''cd''] @ ''xyz'')" "''xyz''" example_env]
    deserializeVector_roundtrip [of 2 "[]" "file_of ''v.bin'' (serializeVector [])" "[]" example_env]
  by (simp add: file_of_def good_def)

subsection \<open>Skipping\<close>

lemma pubseekoff_cur_forward:
  "0 < N \<Longrightarrow> cursor s + N \<le> limit \<Longrightarrow> limit < 2 ^ 63 \<Longrightarrow>
   pubseekoff_cur limit s (int N) = Some (s\<lparr>cursor := cursor s + N\<rparr>)"
  by (simp add: pubseekoff_cur_def Let_def nat_add_distrib)

lemma skip_advance:
  "cursor (input_stream f) + n * sz \<le> max_offset E \<Longrightarrow> max_offset E < 2 ^ 63 \<Longrightarrow>
   skip E f n sz = (E, advance f (n * sz))"
proof -
  define N where "N = n * sz"
  assume a: "cursor (input_stream f) + n * sz \<le> max_offset E" and m: "max_offset E < 2 ^ 63"
  then have "N < 2 ^ 63" by (simp add: N_def)
  then have o: "to_int64 (N mod 2 ^ 64) = int N"
    by (rule to_int64_small)
  have a': "cursor (input_stream f) + N \<le> max_offset E"
    using a by (simp add: N_def)
  show ?thesis
  proof (cases "N = 0")
    case True
    then have z: "to_int64 (N mod 2 ^ 64) = 0"
      using o by simp
    show ?thesis
      unfolding skip_def N_def [symmetric] z using True
      by (simp add: pubseekoff_cur_def advance_def)
  next
    case False
    then have "pubseekoff_cur (max_offset E) (input_stream f) (int N) =
        Some ((input_stream f)\<lparr>cursor := cursor (input_stream f) + N\<rparr>)"
      using a' m by (intro pubseekoff_cur_forward) simp_all
    then show ?thesis
      unfolding skip_def N_def [symmetric] o by (simp add: advance_def)
  qed
qed

text \<open>
  C8, as stated, fails for large \<open>n\<close>. For \<open>2 ^ 63\<close> objects of two bytes the
  offset wraps to zero and nothing moves; for a target above the largest
  offset that the file system accepts the seek is refused, the position
  stays and the error number changes. In both cases the read that follows
  returns the bytes at the old position.
\<close>

theorem skip_refused_counterexample:
  "skip example_env (file_of ''s.bin'' ''abcd'') 9223372036854775808 2 =
     (example_env, file_of ''s.bin'' ''abcd'') \<and>
   skip example_env (file_of ''s.bin'' ''abcd'') 17592186040321 1 =
     (example_env\<lparr>strerror_errno := ''Invalid argument''\<rparr>, file_of ''s.bin'' ''abcd'') \<and>
   readInto (fst (skip example_env (file_of ''s.bin'' ''abcd'') 9223372036854775808 2))
       (snd (skip example_env (file_of ''s.bin'' ''abcd'') 9223372036854775808 2)) 1 2 =
     Inr (''ab'', advance (file_of ''s.bin'' ''abcd'') 2) \<and>
   readInto (fst (skip example_env (file_of ''s.bin'' ''abcd'') 17592186040321 1))
       (snd (skip example_env (file_of ''s.bin'' ''abcd'') 17592186040321 1)) 1 2 =
     Inr (''ab'', advance (file_of ''s.bin'' ''abcd'') 2)"
  by (simp add: skip_def pubseekoff_cur_def readInto_def istream_read_def to_int64_def
      file_of_def advance_def good_def slice_def example_env_def Let_def)

text \<open>
  C8, amended. Where the target \<open>cursor + n * sizeof(T)\<close> does not exceed the
  largest offset that the file system accepts, itself below \<open>2 ^ 63\<close>,
  \<open>skip\<close> moves the position forward by \<open>n * sizeof(T)\<close> bytes and does
  nothing else: it cannot fail and leaves the state bits and the error
  number alone, also at or beyond the end of the file. It leaves the file as
  reading and discarding \<open>n\<close> objects would, so a read that follows returns
  the bytes from offset \<open>n * sizeof(T)\<close> after the old position. A read of
  \<open>k > 0\<close> objects after a skip to or past the end throws.
\<close>

theorem skip_then_read:
  "cursor (input_stream f) + n * sz \<le> max_offset E \<and> max_offset E < 2 ^ 63 \<longrightarrow>
     skip E f n sz = (E, advance f (n * sz)) \<and>
     (good (input_stream f) \<and> 0 < sz \<and> n * sz \<le> bytes_available f \<longrightarrow>
        readInto E f n sz =
          Inr (slice (file_bytes (input_stream f)) (cursor (input_stream f)) (n * sz),
               snd (skip E f n sz))) \<and>
     (good (input_stream f) \<and> 0 < k \<and> 0 < sz' \<and> k * sz' < 2 ^ 63 \<and>
      n * sz + k * sz' \<le> bytes_available f \<longrightarrow>
        readInto (fst (skip E f n sz)) (snd (skip E f n sz)) k sz' =
          Inr (slice (file_bytes (input_stream f)) (cursor (input_stream f) + n * sz) (k * sz'),
               advance f (n * sz + k * sz'))) \<and>
     (0 < k \<and> bytes_available f \<le> n * sz \<longrightarrow>
        good (input_stream (snd (skip E f n sz))) = good (input_stream f) \<and>
        readInto (fst (skip E f n sz)) (snd (skip E f n sz)) k sz' =
          Inl (exception (''Error reading from '' @ filename f @ '': '' @ strerror_errno E)))"
proof (intro impI conjI)
  assume a: "cursor (input_stream f) + n * sz \<le> max_offset E \<and> max_offset E < 2 ^ 63"
  show s: "skip E f n sz = (E, advance f (n * sz))"
    using a by (simp add: skip_advance)
  have lt: "n * sz < 2 ^ 63"
    using a by simp
  {
    assume b: "good (input_stream f) \<and> 0 < sz \<and> n * sz \<le> bytes_available f"
    show "readInto E f n sz =
          Inr (slice (file_bytes (input_stream f)) (cursor (input_stream f)) (n * sz),
               snd (skip E f n sz))"
    proof (cases "n = 0")
      case True
      then show ?thesis using s by (simp add: readInto_def slice_def)
    next
      case False
      then show ?thesis
        using readInto_ok [of f n sz E] b lt by (simp add: s)
    qed
  }
  {
    assume b: "good (input_stream f) \<and> 0 < k \<and> 0 < sz' \<and> k * sz' < 2 ^ 63 \<and>
      n * sz + k * sz' \<le> bytes_available f"
    show "readInto (fst (skip E f n sz)) (snd (skip E f n sz)) k sz' =
          Inr (slice (file_bytes (input_stream f)) (cursor (input_stream f) + n * sz) (k * sz'),
               advance f (n * sz + k * sz'))"
    proof -
      have "k * sz' \<le> bytes_available f - n * sz"
        using b by linarith
      then show ?thesis
        using readInto_ok [of "advance f (n * sz)" k sz' E] b by (simp add: s add.assoc)
    qed
  }
  {
    assume b: "0 < k \<and> bytes_available f \<le> n * sz"
    show "good (input_stream (snd (skip E f n sz))) = good (input_stream f)"
      by (simp add: s)
    show "readInto (fst (skip E f n sz)) (snd (skip E f n sz)) k sz' =
          Inl (exception (''Error reading from '' @ filename f @ '': '' @ strerror_errno E))"
      using b readInto_nothing_left [of k "advance f (n * sz)" E sz'] by (simp add: s)
  }
qed

theorem skip_then_read_witness:
  "skip example_env (file_of ''s.bin'' ''abcdefgh'') 2 2 =
     (example_env, advance (file_of ''s.bin'' ''abcdefgh'') 4) \<and>
   readInto example_env (advance (file_of ''s.bin'' ''abcdefgh'') 4) 1 3 =
     Inr (''efg'', advance (file_of ''s.bin'' ''abcdefgh'') 7) \<and>
   readInto example_env (file_of ''s.bin'' ''abcdefgh'') 2 2 =
     Inr (''abcd'', advance (file_of ''s.bin'' ''abcdefgh'') 4) \<and>
   skip example_env (file_of ''s.bin'' ''abc'') 2 2 =
     (example_env, advance (file_of ''s.bin'' ''abc'') 4) \<and>
   readInto example_env (advance (file_of ''s.bin'' ''abc'') 4) 1 3 =
     Inl (exception ''Error reading from s.bin: Success'')"
proof -
  let ?F = "file_of ''s.bin'' ''abcdefgh''" and ?G = "file_of ''s.bin'' ''abc''"
  have m: "max_offset example_env < 2 ^ 63" "max_offset example_env = 17592186040320"
    and e: "strerror_errno example_env = ''Success''"
    by (simp_all add: example_env_def)
  have hF: "cursor (input_stream ?F) + 2 * 2 \<le> max_offset example_env \<and> max_offset example_env < 2 ^ 63"
    and hG: "cursor (input_stream ?G) + 2 * 2 \<le> max_offset example_env \<and> max_offset example_env < 2 ^ 63"
    using m by (simp_all add: file_of_def)
  note TF = skip_then_read [of ?F 2 2 example_env 1 3, THEN mp, OF hF]
  note TG = skip_then_read [of ?G 2 2 example_env 1 3, THEN mp, OF hG]
  have st: "good (input_stream ?F)" "bytes_available ?F = 8" "cursor (input_stream ?F) = 0"
    "file_bytes (input_stream ?F) = ''abcdefgh''" "filename ?G = ''s.bin''"
    "bytes_available ?G = 3"
    by (simp_all add: file_of_def good_def bytes_available_def)
  have sF: "skip example_env ?F 2 2 = (example_env, advance ?F 4)"
    using TF [THEN conjunct1] by simp
  have sG: "skip example_env ?G 2 2 = (example_env, advance ?G 4)"
    using TG [THEN conjunct1] by simp
  have r1: "readInto example_env ?F 2 2 = Inr (''abcd'', advance ?F 4)"
    using TF [THEN conjunct2, THEN conjunct1] by (simp add: sF slice_def st)
  have r2: "readInto example_env (advance ?F 4) 1 3 = Inr (''efg'', advance ?F 7)"
    using TF [THEN conjunct2, THEN conjunct2, THEN conjunct1] by (simp add: sF slice_def st)
  have r3: "readInto example_env (advance ?G 4) 1 3 =
      Inl (exception ''Error reading from s.bin: Success'')"
    using TG [THEN conjunct2, THEN conjunct2, THEN conjunct2] e by (simp add: sG st)
  show ?thesis
    using sF sG r1 r2 r3 by simp
qed

subsection \<open>Element counts, fingerprints and the graph header\<close>

lemma istream_read_good:
  "good s \<Longrightarrow> fst (istream_read s n) = slice (file_bytes s) (cursor s) (nat n)"
  by (simp add: istream_read_def Let_def)

lemma le_decode_overlay:
  "length bs \<le> k \<Longrightarrow> le_decode (overlay bs (replicate k (CHR 0x00))) = le_decode bs"
  by (simp add: overlay_def le_decode_append_zeros)

lemma le_decode_zeros: "le_decode (replicate k (CHR 0x00)) = 0"
  by (induction k) simp_all

lemma fst_readElementCount:
  "fst (readElementCount64 s) = le_decode (overlay (fst (istream_read s 8)) (replicate 8 (CHR 0x00)))"
  "fst (readElementCount32 s) = le_decode (overlay (fst (istream_read s 4)) (replicate 4 (CHR 0x00)))"
  by (simp_all add: readElementCount64_def readElementCount32_def split: prod.splits)

lemma File_readElementCount_fail:
  "\<not> good (input_stream f) \<or> bytes_available f < 8 \<Longrightarrow>
     \<exists>msg. File_readElementCount64 E f = Inl (exception msg)"
  "\<not> good (input_stream f) \<or> bytes_available f < 4 \<Longrightarrow>
     \<exists>msg. File_readElementCount32 E f = Inl (exception msg)"
  using readInto_ref_fail [of uint64_t f E] readInto_ref_fail [of uint32_t f E]
  by (auto simp: File_readElementCount64_def File_readElementCount32_def readOne_eq
      uint64_t_def uint32_t_def layout_ok_def)

text \<open>
  C10. The free functions \<open>readElementCount64\<close> and \<open>readElementCount32\<close>
  on a bare stream answer with a number in every case and have no way to
  report an error: zero when nothing could be extracted, and on a good stream
  the number spelt by the bytes that were there, also when these are fewer
  than asked for. The members of \<open>File\<close> with the same names throw on the
  same streams.
\<close>

theorem readElementCount_unchecked:
  "(\<not> good s \<or> length (file_bytes s) \<le> cursor s \<longrightarrow>
      fst (readElementCount64 s) = 0 \<and> fst (readElementCount32 s) = 0) \<and>
   (good s \<longrightarrow>
      fst (readElementCount64 s) = le_decode (slice (file_bytes s) (cursor s) 8) \<and>
      fst (readElementCount32 s) = le_decode (slice (file_bytes s) (cursor s) 4)) \<and>
   (input_stream f = s \<and> (\<not> good s \<or> length (file_bytes s) - cursor s < 8) \<longrightarrow>
      (\<exists>msg. File_readElementCount64 E f = Inl (exception msg))) \<and>
   (input_stream f = s \<and> (\<not> good s \<or> length (file_bytes s) - cursor s < 4) \<longrightarrow>
      (\<exists>msg. File_readElementCount32 E f = Inl (exception msg)))"
proof (intro conjI impI)
  assume a: "\<not> good s \<or> length (file_bytes s) \<le> cursor s"
  have "fst (istream_read s 8) = []" and "fst (istream_read s 4) = []"
    using a by (auto simp: istream_read_def Let_def slice_def)
  then show "fst (readElementCount64 s) = 0" and "fst (readElementCount32 s) = 0"
    by (simp_all add: fst_readElementCount overlay_def le_decode_zeros)
next
  assume g: "good s"
  have "fst (readElementCount64 s) = le_decode (overlay (slice (file_bytes s) (cursor s) 8) (replicate 8 (CHR 0x00)))"
    using istream_read_good [OF g, of 8] by (simp add: fst_readElementCount)
  then show "fst (readElementCount64 s) = le_decode (slice (file_bytes s) (cursor s) 8)"
    by (simp add: le_decode_overlay length_slice)
  have "fst (readElementCount32 s) = le_decode (overlay (slice (file_bytes s) (cursor s) 4) (replicate 4 (CHR 0x00)))"
    using istream_read_good [OF g, of 4] by (simp add: fst_readElementCount)
  then show "fst (readElementCount32 s) = le_decode (slice (file_bytes s) (cursor s) 4)"
    by (simp add: le_decode_overlay length_slice)
next
  assume "input_stream f = s \<and> (\<not> good s \<or> length (file_bytes s) - cursor s < 8)"
  then show "\<exists>msg. File_readElementCount64 E f = Inl (exception msg)"
    using File_readElementCount_fail(1) [of f E] by (auto simp: bytes_available_def)
next
  assume "input_stream f = s \<and> (\<not> good s \<or> length (file_bytes s) - cursor s < 4)"
  then show "\<exists>msg. File_readElementCount32 E f = Inl (exception msg)"
    using File_readElementCount_fail(2) [of f E] by (auto simp: bytes_available_def)
qed

theorem readElementCount_unchecked_witness:
  "fst (readElementCount64 (input_stream (file_of ''n.bin'' []))) = 0 \<and>
   fst (readElementCount32 (input_stream (file_of ''n.bin'' []))) = 0 \<and>
   fst (readElementCount64 (input_stream (file_of ''n.bin'' [CHR 0x01, CHR 0x02, CHR 0x03]))) = 197121 \<and>
   (\<exists>msg. File_readElementCount64 example_env (file_of ''n.bin'' [CHR 0x01, CHR 0x02, CHR 0x03]) =
      Inl (exception msg))"
  using readElementCount_unchecked [of "input_stream (file_of ''n.bin'' [])" "file_of ''n.bin'' []" example_env]
    readElementCount_unchecked [of "input_stream (file_of ''n.bin'' [CHR 0x01, CHR 0x02, CHR 0x03])"
      "file_of ''n.bin'' [CHR 0x01, CHR 0x02, CHR 0x03]" example_env]
  by (simp add: file_of_def good_def slice_def)

lemma validate_all:
  "validate a b [GraphConstruction, Contraction, SpatialIndex, QueryObject] \<longleftrightarrow>
   IsMagicNumberOK b a \<and> TestContractor b a \<and> TestGraphUtil b a \<and> TestRTree b a \<and>
   TestQueryObjects b a"
  by (auto simp: validate_def IsMagicNumberOK_def TestContractor_def TestGraphUtil_def
      TestRTree_def TestQueryObjects_def)

lemma file_of_simps [simp]:
  "good (input_stream (file_of path bs))"
  "bytes_available (file_of path bs) = length bs"
  "cursor (input_stream (file_of path bs)) = 0"
  "file_bytes (input_stream (file_of path bs)) = bs"
  "filename (file_of path bs) = path"
  by (simp_all add: file_of_def good_def bytes_available_def)

lemma readAndCheckFingerprint_ok:
  "layout_ok (fingerprint_layout E) \<Longrightarrow> good (input_stream f) \<Longrightarrow>
   sizeof (fingerprint_layout E) \<le> bytes_available f \<Longrightarrow>
   readAndCheckFingerprint E f =
     Inr (validate (decode (fingerprint_layout E)
            (slice (file_bytes (input_stream f)) (cursor (input_stream f)) (sizeof (fingerprint_layout E))))
            (GetValid E) [GraphConstruction, Contraction, SpatialIndex, QueryObject],
          advance f (sizeof (fingerprint_layout E)))"
  using readInto_ref_ok [of "fingerprint_layout E" f E]
  by (simp add: readAndCheckFingerprint_def readOne_eq validate_all Let_def)

text \<open>
  C2. Opening a file with \<open>check_fingerprint\<close> set reads one fingerprint from
  the start of the file and succeeds, positioned behind it, exactly when the
  magic number and all four markers agree with the fingerprint of the running
  build; otherwise it throws \<open>Fingerprint mismatch in\<close> followed by the
  path. A magic number that differs is enough to fail. A file too short to
  hold a fingerprint fails in the read itself.
\<close>

theorem File_open_checks_fingerprint:
  "layout_ok (fingerprint_layout E) \<and> fs path = Some bs \<longrightarrow>
     (sizeof (fingerprint_layout E) \<le> length bs \<longrightarrow>
        File_open E fs path True =
          (if validate (decode (fingerprint_layout E) (take (sizeof (fingerprint_layout E)) bs))
                (GetValid E) [GraphConstruction, Contraction, SpatialIndex, QueryObject]
           then Inr (advance (file_of path bs) (sizeof (fingerprint_layout E)))
           else Inl (exception (''Fingerprint mismatch in '' @ path)))) \<and>
     (sizeof (fingerprint_layout E) \<le> length bs \<and>
      magic_number (decode (fingerprint_layout E) (take (sizeof (fingerprint_layout E)) bs)) \<noteq>
        magic_number (GetValid E) \<longrightarrow>
        File_open E fs path True = Inl (exception (''Fingerprint mismatch in '' @ path))) \<and>
     (length bs < sizeof (fingerprint_layout E) \<longrightarrow>
        (\<exists>msg. File_open E fs path True = Inl (exception (''Error reading from '' @ path @ '': '' @ msg))))"
proof (intro impI, elim conjE)
  let ?L = "fingerprint_layout E"
  assume L: "layout_ok ?L" and fs: "fs path = Some bs"
  have open_eq: "File_open E fs path True =
      (case readAndCheckFingerprint E (file_of path bs) of
         Inl e \<Rightarrow> Inl e
       | Inr (ok, f') \<Rightarrow>
           if \<not> ok then Inl (exception (''Fingerprint mismatch in '' @ path)) else Inr f')"
    using fs by (simp add: File_open_def file_of_def)
  have full: "sizeof ?L \<le> length bs \<Longrightarrow>
      File_open E fs path True =
        (if validate (decode ?L (take (sizeof ?L) bs)) (GetValid E)
              [GraphConstruction, Contraction, SpatialIndex, QueryObject]
         then Inr (advance (file_of path bs) (sizeof ?L))
         else Inl (exception (''Fingerprint mismatch in '' @ path)))"
    using readAndCheckFingerprint_ok [of E "file_of path bs"] L
    by (simp add: open_eq slice_def)
  have short: "length bs < sizeof ?L \<Longrightarrow>
      \<exists>msg. File_open E fs path True = Inl (exception (''Error reading from '' @ path @ '': '' @ msg))"
  proof -
    assume s: "length bs < sizeof ?L"
    have "readInto E (file_of path bs) 1 (sizeof ?L) =
        Inl (exception (''Error reading from '' @ path @ '': '' @
          (if 0 < length bs then ''Unexpected end of file'' else strerror_errno E)))"
      using L s by (auto simp: readInto_small layout_ok_def)
    then show ?thesis
      by (simp add: open_eq readAndCheckFingerprint_def readOne_eq readInto_ref_def)
  qed
  show "(sizeof ?L \<le> length bs \<longrightarrow>
        File_open E fs path True =
          (if validate (decode ?L (take (sizeof ?L) bs))
                (GetValid E) [GraphConstruction, Contraction, SpatialIndex, QueryObject]
           then Inr (advance (file_of path bs) (sizeof ?L))
           else Inl (exception (''Fingerprint mismatch in '' @ path)))) \<and>
     (sizeof ?L \<le> length bs \<and>
      magic_number (decode ?L (take (sizeof ?L) bs)) \<noteq> magic_number (GetValid E) \<longrightarrow>
        File_open E fs path True = Inl (exception (''Fingerprint mismatch in '' @ path))) \<and>
     (length bs < sizeof ?L \<longrightarrow>
        (\<exists>msg. File_open E fs path True = Inl (exception (''Error reading from '' @ path @ '': '' @ msg))))"
    using full short by (auto simp: validate_def)
qed


theorem File_open_checks_fingerprint_witness:
  "File_open example_env [''x.nodes'' \<mapsto> ''Mgctq123''] ''x.nodes'' True =
     Inr (advance (file_of ''x.nodes'' ''Mgctq123'') 5) \<and>
   File_open example_env [''x.nodes'' \<mapsto> ''Xgctq123''] ''x.nodes'' True =
     Inl (exception ''Fingerprint mismatch in x.nodes'') \<and>
   File_open example_env [''x.nodes'' \<mapsto> ''MgcXq123''] ''x.nodes'' True =
     Inl (exception ''Fingerprint mismatch in x.nodes'')"
  using File_open_checks_fingerprint [of example_env "[''x.nodes'' \<mapsto> ''Mgctq123'']" "''x.nodes''" "''Mgctq123''"]
    File_open_checks_fingerprint [of example_env "[''x.nodes'' \<mapsto> ''Xgctq123'']" "''x.nodes''" "''Xgctq123''"]
    File_open_checks_fingerprint [of example_env "[''x.nodes'' \<mapsto> ''MgcXq123'']" "''x.nodes''" "''MgcXq123''"]
  by (simp add: example_env_def example_fingerprint_layout_def example_fingerprint_def
      layout_ok_def validate_def slice_def)

lemma readHSGRHeader_written:
  assumes L: "layout_ok (fingerprint_layout E)"
    and g: "good (input_stream f)"
    and fpb: "length fpb = sizeof (fingerprint_layout E)"
    and cs: "cs < 2 ^ 32" and nodes: "nodes < 2 ^ 64" and edges: "edges < 2 ^ 64"
    and fl: "drop (cursor (input_stream f)) (file_bytes (input_stream f)) =
             fpb @ hsgr_header_bytes cs nodes edges @ rest"
  shows "readHSGRHeader E f =
           (if \<not> TestGraphUtil (decode (fingerprint_layout E) fpb) (GetValid E)
            then [hsgr_warning] else [],
            if assertions E \<and> nodes = 0
            then Inl (assertion_failure ''number of nodes is zero'')
            else Inr (\<lparr>checksum = cs, number_of_nodes = nodes, number_of_edges = edges\<rparr>,
                      advance f (sizeof (fingerprint_layout E) + 20)))"
proof -
  let ?L = "fingerprint_layout E" and ?F = "sizeof (fingerprint_layout E)"
  let ?bs = "file_bytes (input_stream f)" and ?c = "cursor (input_stream f)"
  let ?e1 = "le_encode 4 cs" and ?e2 = "le_encode 8 nodes" and ?e3 = "le_encode 8 edges"
  have d0: "drop ?c ?bs = fpb @ (?e1 @ ?e2 @ ?e3 @ rest)"
    using fl by (simp add: hsgr_header_bytes_def)
  have d1: "drop ?c ?bs = fpb @ ?e1 @ (?e2 @ ?e3 @ rest)"
    using d0 by simp
  have d2: "drop ?c ?bs = (fpb @ ?e1) @ ?e2 @ (?e3 @ rest)"
    using d0 by simp
  have d3: "drop ?c ?bs = (fpb @ ?e1 @ ?e2) @ ?e3 @ rest"
    using d0 by simp
  have "length (drop ?c ?bs) = ?F + 20 + length rest"
    unfolding d0 using fpb by simp
  then have avail: "bytes_available f = ?F + 20 + length rest"
    by (simp add: bytes_available_def)
  have s0: "slice ?bs ?c ?F = fpb"
    using slice_drop_append [OF d0] fpb by simp
  have s1: "slice ?bs (?c + ?F) 4 = ?e1"
    using slice_drop_append2 [OF d1] fpb by simp
  have s2: "slice ?bs (?c + (?F + 4)) 8 = ?e2"
    using slice_drop_append2 [OF d2] fpb by (simp add: add.assoc)
  have s3: "slice ?bs (?c + (?F + 12)) 8 = ?e3"
    using slice_drop_append2 [OF d3] fpb by (simp add: add.assoc)
  have v1: "le_decode ?e1 = cs"
    using cs by (intro le_decode_le_encode) simp
  have v2: "le_decode ?e2 = nodes"
    using nodes by (intro le_decode_le_encode) simp
  have v3: "le_decode ?e3 = edges"
    using edges by (intro le_decode_le_encode) simp
  have r0: "readOne E ?L f = Inr (decode ?L fpb, advance f ?F)"
    using readInto_ref_ok [of ?L f E] L g avail s0 by (simp add: readOne_eq)
  have r1: "readInto_ref E uint32_t (advance f ?F) = Inr (cs, advance f (?F + 4))"
    using readInto_ref_ok [of uint32_t "advance f ?F" E] g avail s1 v1
    by (simp add: uint32_t_def layout_ok_def)
  have r2: "readInto_ref E uint64_t (advance f (?F + 4)) = Inr (nodes, advance f (?F + 12))"
    using readInto_ref_ok [of uint64_t "advance f (?F + 4)" E] g avail s2 v2
    by (simp add: uint64_t_def layout_ok_def add.commute)
  have r3: "readInto_ref E uint64_t (advance f (?F + 12)) = Inr (edges, advance f (?F + 20))"
    using readInto_ref_ok [of uint64_t "advance f (?F + 12)" E] g avail s3 v3
    by (simp add: uint64_t_def layout_ok_def add.commute)
  show ?thesis
    by (simp add: readHSGRHeader_def r0 r1 r2 r3 Let_def)
qed


text \<open>
  C3, as stated, fails: the check on the number of nodes is a \<^verbatim>\<open>BOOST_ASSERT\<close>.
  In a build without assertions a header with zero nodes is returned as it
  was read.
\<close>

theorem readHSGRHeader_zero_nodes_counterexample:
  "snd (readHSGRHeader release_env (file_of ''g.hsgr'' (''Mgctq'' @ hsgr_header_bytes 7 0 1))) =
     Inr (\<lparr>checksum = 7, number_of_nodes = 0, number_of_edges = 1\<rparr>,
          advance (file_of ''g.hsgr'' (''Mgctq'' @ hsgr_header_bytes 7 0 1)) 25)"
  using readHSGRHeader_written [of release_env "file_of ''g.hsgr'' (''Mgctq'' @ hsgr_header_bytes 7 0 1)"
      "''Mgctq''" 7 0 1 "[]"]
  by (simp add: release_env_def example_env_def example_fingerprint_layout_def layout_ok_def)

text \<open>
  C3, amended. On a header whose number of nodes is zero, \<open>readHSGRHeader\<close>
  ends in the failed assertion \<open>number of nodes is zero\<close> when assertions are
  compiled in, whatever the number of edges, and returns the header
  unchanged when they are not. A header with a positive number of nodes is
  returned in either build, also with zero edges.
\<close>

theorem readHSGRHeader_node_count:
  "layout_ok (fingerprint_layout E) \<and> good (input_stream f) \<and>
   length fpb = sizeof (fingerprint_layout E) \<and> cs < 2 ^ 32 \<and> nodes < 2 ^ 64 \<and> edges < 2 ^ 64 \<and>
   drop (cursor (input_stream f)) (file_bytes (input_stream f)) =
     fpb @ hsgr_header_bytes cs nodes edges @ rest \<longrightarrow>
     (nodes = 0 \<and> assertions E \<longrightarrow>
        snd (readHSGRHeader E f) = Inl (assertion_failure ''number of nodes is zero'')) \<and>
     (nodes = 0 \<and> \<not> assertions E \<longrightarrow>
        snd (readHSGRHeader E f) =
          Inr (\<lparr>checksum = cs, number_of_nodes = 0, number_of_edges = edges\<rparr>,
               advance f (sizeof (fingerprint_layout E) + 20))) \<and>
     (0 < nodes \<longrightarrow>
        snd (readHSGRHeader E f) =
          Inr (\<lparr>checksum = cs, number_of_nodes = nodes, number_of_edges = edges\<rparr>,
               advance f (sizeof (fingerprint_layout E) + 20)))"
proof (intro impI, elim conjE)
  assume "layout_ok (fingerprint_layout E)" and "good (input_stream f)"
    and "length fpb = sizeof (fingerprint_layout E)"
    and "cs < 2 ^ 32" and "nodes < 2 ^ 64" and "edges < 2 ^ 64"
    and "drop (cursor (input_stream f)) (file_bytes (input_stream f)) =
      fpb @ hsgr_header_bytes cs nodes edges @ rest"
  then have "snd (readHSGRHeader E f) =
      (if assertions E \<and> nodes = 0
       then Inl (assertion_failure ''number of nodes is zero'')
       else Inr (\<lparr>checksum = cs, number_of_nodes = nodes, number_of_edges = edges\<rparr>,
                 advance f (sizeof (fingerprint_layout E) + 20)))"
    by (simp add: readHSGRHeader_written)
  then show "(nodes = 0 \<and> assertions E \<longrightarrow>
        snd (readHSGRHeader E f) = Inl (assertion_failure ''number of nodes is zero'')) \<and>
     (nodes = 0 \<and> \<not> assertions E \<longrightarrow>
        snd (readHSGRHeader E f) =
          Inr (\<lparr>checksum = cs, number_of_nodes = 0, number_of_edges = edges\<rparr>,
               advance f (sizeof (fingerprint_layout E) + 20))) \<and>
     (0 < nodes \<longrightarrow>
        snd (readHSGRHeader E f) =
          Inr (\<lparr>checksum = cs, number_of_nodes = nodes, number_of_edges = edges\<rparr>,
               advance f (sizeof (fingerprint_layout E) + 20)))"
    by simp
qed

theorem readHSGRHeader_node_count_witness:
  "snd (readHSGRHeader example_env (file_of ''g.hsgr'' (''Mgctq'' @ hsgr_header_bytes 7 0 3))) =
     Inl (assertion_failure ''number of nodes is zero'') \<and>
   snd (readHSGRHeader example_env (file_of ''g.hsgr'' (''Mgctq'' @ hsgr_header_bytes 7 2 0))) =
     Inr (\<lparr>checksum = 7, number_of_nodes = 2, number_of_edges = 0\<rparr>,
          advance (file_of ''g.hsgr'' (''Mgctq'' @ hsgr_header_bytes 7 2 0)) 25)"
  using readHSGRHeader_node_count [of example_env "file_of ''g.hsgr'' (''Mgctq'' @ hsgr_header_bytes 7 0 3)"
      "''Mgctq''" 7 0 3 "[]"]
    readHSGRHeader_node_count [of example_env "file_of ''g.hsgr'' (''Mgctq'' @ hsgr_header_bytes 7 2 0)"
      "''Mgctq''" 7 2 0 "[]"]
  by (simp add: example_env_def example_fingerprint_layout_def layout_ok_def)

text \<open>
  C6. \<open>readHSGRHeader\<close> never fails because of the fingerprint it reads. When
  the spatial-index or the contraction marker of the loaded fingerprint
  differs from the running build it logs one warning, and so it does exactly
  when \<open>TestGraphUtil\<close> answers no; whatever the fingerprint holds, it goes on
  to read the checksum, the number of nodes and the number of edges, in this
  order, and its outcome depends on these three alone.
\<close>

theorem readHSGRHeader_fingerprint_tolerated:
  "layout_ok (fingerprint_layout E) \<and> good (input_stream f) \<and>
   length fpb = sizeof (fingerprint_layout E) \<and> cs < 2 ^ 32 \<and> nodes < 2 ^ 64 \<and> edges < 2 ^ 64 \<and>
   drop (cursor (input_stream f)) (file_bytes (input_stream f)) =
     fpb @ hsgr_header_bytes cs nodes edges @ rest \<longrightarrow>
     (spatial_index (decode (fingerprint_layout E) fpb) \<noteq> spatial_index (GetValid E) \<or>
      contraction (decode (fingerprint_layout E) fpb) \<noteq> contraction (GetValid E) \<longrightarrow>
        fst (readHSGRHeader E f) = [hsgr_warning]) \<and>
     fst (readHSGRHeader E f) =
       (if TestGraphUtil (decode (fingerprint_layout E) fpb) (GetValid E)
        then [] else [hsgr_warning]) \<and>
     snd (readHSGRHeader E f) =
       (if assertions E \<and> nodes = 0
        then Inl (assertion_failure ''number of nodes is zero'')
        else Inr (\<lparr>checksum = cs, number_of_nodes = nodes, number_of_edges = edges\<rparr>,
                  advance f (sizeof (fingerprint_layout E) + 20)))"
proof (intro impI, elim conjE)
  assume "layout_ok (fingerprint_layout E)" and "good (input_stream f)"
    and "length fpb = sizeof (fingerprint_layout E)"
    and "cs < 2 ^ 32" and "nodes < 2 ^ 64" and "edges < 2 ^ 64"
    and "drop (cursor (input_stream f)) (file_bytes (input_stream f)) =
      fpb @ hsgr_header_bytes cs nodes edges @ rest"
  then have "readHSGRHeader E f =
           (if \<not> TestGraphUtil (decode (fingerprint_layout E) fpb) (GetValid E)
            then [hsgr_warning] else [],
            if assertions E \<and> nodes = 0
            then Inl (assertion_failure ''number of nodes is zero'')
            else Inr (\<lparr>checksum = cs, number_of_nodes = nodes, number_of_edges = edges\<rparr>,
                      advance f (sizeof (fingerprint_layout E) + 20)))"
    by (rule readHSGRHeader_written)
  then show "(spatial_index (decode (fingerprint_layout E) fpb) \<noteq> spatial_index (GetValid E) \<or>
      contraction (decode (fingerprint_layout E) fpb) \<noteq> contraction (GetValid E) \<longrightarrow>
        fst (readHSGRHeader E f) = [hsgr_warning]) \<and>
     fst (readHSGRHeader E f) =
       (if TestGraphUtil (decode (fingerprint_layout E) fpb) (GetValid E)
        then [] else [hsgr_warning]) \<and>
     snd (readHSGRHeader E f) =
       (if assertions E \<and> nodes = 0
        then Inl (assertion_failure ''number of nodes is zero'')
        else Inr (\<lparr>checksum = cs, number_of_nodes = nodes, number_of_edges = edges\<rparr>,
                  advance f (sizeof (fingerprint_layout E) + 20)))"
    by (auto simp: TestGraphUtil_def validate_def)
qed

theorem readHSGRHeader_fingerprint_tolerated_witness:
  "readHSGRHeader example_env (file_of ''g.hsgr'' (''MgcXq'' @ hsgr_header_bytes 7 2 0)) =
     ([hsgr_warning],
      Inr (\<lparr>checksum = 7, number_of_nodes = 2, number_of_edges = 0\<rparr>,
           advance (file_of ''g.hsgr'' (''MgcXq'' @ hsgr_header_bytes 7 2 0)) 25)) \<and>
   readHSGRHeader example_env (file_of ''g.hsgr'' (''MgZtq'' @ hsgr_header_bytes 7 2 0)) =
     ([hsgr_warning],
      Inr (\<lparr>checksum = 7, number_of_nodes = 2, number_of_edges = 0\<rparr>,
           advance (file_of ''g.hsgr'' (''MgZtq'' @ hsgr_header_bytes 7 2 0)) 25)) \<and>
   readHSGRHeader example_env (file_of ''g.hsgr'' (''Mgctq'' @ hsgr_header_bytes 7 2 0)) =
     ([],
      Inr (\<lparr>checksum = 7, number_of_nodes = 2, number_of_edges = 0\<rparr>,
           advance (file_of ''g.hsgr'' (''Mgctq'' @ hsgr_header_bytes 7 2 0)) 25))"
  using readHSGRHeader_fingerprint_tolerated [of example_env
      "file_of ''g.hsgr'' (''MgcXq'' @ hsgr_header_bytes 7 2 0)" "''MgcXq''" 7 2 0 "[]"]
    readHSGRHeader_fingerprint_tolerated [of example_env
      "file_of ''g.hsgr'' (''MgZtq'' @ hsgr_header_bytes 7 2 0)" "''MgZtq''" 7 2 0 "[]"]
    readHSGRHeader_fingerprint_tolerated [of example_env
      "file_of ''g.hsgr'' (''Mgctq'' @ hsgr_header_bytes 7 2 0)" "''Mgctq''" 7 2 0 "[]"]
  by (simp add: example_env_def example_fingerprint_layout_def example_fingerprint_def
      layout_ok_def slice_def prod_eq_iff TestGraphUtil_def validate_def)

subsection \<open>Edge records\<close>

lemma object_at_advance: "object_at L (advance f (sizeof L)) j = object_at L f (Suc j)"
  by (simp add: object_at_def add.assoc)

lemma readInto_ref_object:
  "layout_ok L \<Longrightarrow> readInto_ref E L f = Inr (d, f') \<Longrightarrow>
     good (input_stream f) \<and> sizeof L \<le> bytes_available f \<and> d = object_at L f 0 \<and>
     f' = advance f (sizeof L)"
  by (simp add: readInto_ref_Inr_iff object_at_def)

lemma readEdges_loop_Inr:
  "layout_ok (edge_layout E) \<Longrightarrow> readEdges_loop E f b i n = Inr (b', f') \<Longrightarrow> i \<le> n \<Longrightarrow>
     f' = advance f ((n - i) * sizeof (edge_layout E)) \<and>
     (\<forall>j. arrays_at b' j =
        (if i \<le> j \<and> j < n then edge_fields (object_at (edge_layout E) f (j - i))
         else arrays_at b j))"
proof (induction E f b i n rule: readEdges_loop.induct)
  case (1 E f b i n)
  let ?L = "edge_layout E"
  show ?case
  proof (cases "i < n")
    case False
    then have "readEdges_loop E f b i n = Inr (b, f)"
      by (subst readEdges_loop.simps) simp
    then show ?thesis
      using "1.prems" False by auto
  next
    case True
    obtain d f1 where r: "readInto_ref E ?L f = Inr (d, f1)"
      using "1.prems"(2) True
      by (auto simp: readEdges_loop.simps [of E f b i n] split: sum.splits)
    let ?b1 = "b\<lparr>geometry_list := (geometry_list b)(i := via_geometry d),
                     name_id_list := (name_id_list b)(i := name_id d),
                     turn_instruction_list := (turn_instruction_list b)(i := turn_instruction d),
                     lane_data_id_list := (lane_data_id_list b)(i := lane_data_id d),
                     travel_mode_list := (travel_mode_list b)(i := travel_mode d),
                     entry_class_id_list := (entry_class_id_list b)(i := entry_classid d),
                     pre_turn_bearing_list := (pre_turn_bearing_list b)(i := pre_turn_bearing d),
                     post_turn_bearing_list := (post_turn_bearing_list b)(i := post_turn_bearing d)\<rparr>"
    have rec: "readEdges_loop E f1 ?b1 (Suc i) n = Inr (b', f')"
      using "1.prems"(2) True r by (simp add: readEdges_loop.simps [of E f b i n])
    have ro: "d = object_at ?L f 0" "f1 = advance f (sizeof ?L)"
      using readInto_ref_object [OF "1.prems"(1) r] by simp_all
    have ih: "f' = advance f1 ((n - Suc i) * sizeof ?L) \<and>
        (\<forall>j. arrays_at b' j =
           (if Suc i \<le> j \<and> j < n then edge_fields (object_at ?L f1 (j - Suc i))
            else arrays_at ?b1 j))"
      using "1.IH" [OF True r refl "1.prems"(1) rec] True by simp
    have b1: "\<And>j. arrays_at ?b1 j = (if j = i then edge_fields d else arrays_at b j)"
      by (simp add: arrays_at_def edge_fields_def)
    have "sizeof ?L + (n - Suc i) * sizeof ?L = (n - i) * sizeof ?L"
      using True by (metis Suc_diff_Suc mult_Suc)
    then have f': "f' = advance f ((n - i) * sizeof ?L)"
      using ih ro by simp
    have "arrays_at b' j =
        (if i \<le> j \<and> j < n then edge_fields (object_at ?L f (j - i)) else arrays_at b j)" for j
    proof (cases "j = i")
      case True
      then show ?thesis using ih b1 ro \<open>i < n\<close> by simp
    next
      case False
      then show ?thesis
        using ih b1 ro by (auto simp: object_at_advance Suc_diff_Suc le_Suc_eq)
    qed
    then show ?thesis using f' by simp
  qed
qed

lemma readEdges_loop_ok:
  "layout_ok (edge_layout E) \<Longrightarrow> good (input_stream f) \<Longrightarrow>
   (n - i) * sizeof (edge_layout E) \<le> bytes_available f \<Longrightarrow>
   \<exists>b'. readEdges_loop E f b i n = Inr (b', advance f ((n - i) * sizeof (edge_layout E)))"
proof (induction E f b i n rule: readEdges_loop.induct)
  case (1 E f b i n)
  let ?L = "edge_layout E"
  show ?case
  proof (cases "i < n")
    case False
    then show ?thesis
      by (simp add: readEdges_loop.simps [of E f b i n])
  next
    case True
    have split: "(n - i) * sizeof ?L = sizeof ?L + (n - Suc i) * sizeof ?L"
      using True by (metis Suc_diff_Suc mult_Suc)
    then have fits: "sizeof ?L \<le> bytes_available f"
      using "1.prems"(3) by simp
    have r: "readInto_ref E ?L f = Inr (object_at ?L f 0, advance f (sizeof ?L))"
      using readInto_ref_ok [OF "1.prems"(1,2) fits, of E] by (simp add: object_at_def)
    have "(n - Suc i) * sizeof ?L \<le> bytes_available (advance f (sizeof ?L))"
      using "1.prems"(3) split by simp
    then show ?thesis
      using "1.IH" [OF True r refl "1.prems"(1)] "1.prems"(2) True r split
      by (simp add: readEdges_loop.simps [of E f b i n])
  qed
qed

text \<open>
  C4, as stated, fails in its count: \<open>readEdges\<close> fills eight arrays, the
  two bearings being arrays of their own. One record with eight different
  members leaves eight different entries at index 0.
\<close>

theorem readEdges_eight_arrays_counterexample:
  "\<not> isl (readEdges example_env example_edges_file zero_edge_lists 1) \<and>
   arrays_at (fst (projr (readEdges example_env example_edges_file zero_edge_lists 1))) 0 =
     [1, 2, 3, 4, 5, 6, 7, 8] \<and>
   length (arrays_at (fst (projr (readEdges example_env example_edges_file zero_edge_lists 1))) 0) \<noteq> 7"
  by (simp add: readEdges_def readEdges_loop.simps [of _ _ _ 0] readEdges_loop.simps [of _ _ _ "Suc 0"]
      readInto_ref_def readInto_def istream_read_def to_int64_def example_edges_file_def
      zero_edge_lists_def
      example_env_def example_edge_layout_def file_of_def good_def slice_def arrays_at_def Let_def)

text \<open>
  C4, amended. Every run of \<open>readEdges\<close> over \<open>M\<close> records that returns has
  written exactly the indices below \<open>M\<close> of each of the eight output arrays,
  and at every such index \<open>i\<close> the eight entries are the eight members of
  record \<open>i\<close> of the file; entries from \<open>M\<close> on are untouched and the file
  has moved by \<open>M\<close> records. The run does return whenever the stream is good
  and holds \<open>M\<close> records.
\<close>

theorem readEdges_aligned:
  "layout_ok (edge_layout E) \<longrightarrow>
     (readEdges E f b M = Inr (b', f') \<longrightarrow>
        (\<forall>i<M. arrays_at b' i = edge_fields (object_at (edge_layout E) f i)) \<and>
        (\<forall>i\<ge>M. arrays_at b' i = arrays_at b i) \<and>
        f' = advance f (M * sizeof (edge_layout E))) \<and>
     (good (input_stream f) \<and> M * sizeof (edge_layout E) \<le> bytes_available f \<longrightarrow>
        (\<exists>b''. readEdges E f b M = Inr (b'', advance f (M * sizeof (edge_layout E)))))"
proof (intro impI conjI)
  assume L: "layout_ok (edge_layout E)"
  {
    assume r: "readEdges E f b M = Inr (b', f')"
    have *: "f' = advance f ((M - 0) * sizeof (edge_layout E)) \<and>
      (\<forall>j. arrays_at b' j =
        (if 0 \<le> j \<and> j < M then edge_fields (object_at (edge_layout E) f (j - 0))
         else arrays_at b j))"
      using readEdges_loop_Inr [OF L, of f b 0 M b' f'] r by (simp add: readEdges_def)
    show "\<forall>i<M. arrays_at b' i = edge_fields (object_at (edge_layout E) f i)"
      using * by simp
    show "\<forall>i\<ge>M. arrays_at b' i = arrays_at b i"
      using * by simp
    show "f' = advance f (M * sizeof (edge_layout E))"
      using * by simp
  }
  {
    assume "good (input_stream f) \<and> M * sizeof (edge_layout E) \<le> bytes_available f"
    then show "\<exists>b''. readEdges E f b M = Inr (b'', advance f (M * sizeof (edge_layout E)))"
      using readEdges_loop_ok [OF L, of f M 0 b] by (simp add: readEdges_def)
  }
qed


theorem readEdges_aligned_witness:
  "\<exists>b'. readEdges example_env example_edges_file zero_edge_lists 2 =
          Inr (b', advance example_edges_file 16) \<and>
        arrays_at b' 0 = [1, 2, 3, 4, 5, 6, 7, 8] \<and>
        arrays_at b' 1 = [11, 12, 13, 14, 15, 16, 17, 18] \<and>
        arrays_at b' 2 = [0, 0, 0, 0, 0, 0, 0, 0]"
proof -
  have L: "layout_ok (edge_layout example_env)" and sz: "sizeof (edge_layout example_env) = 8"
    by (simp_all add: example_env_def example_edge_layout_def layout_ok_def)
  have g: "good (input_stream example_edges_file)" and a: "bytes_available example_edges_file = 16"
    by (simp_all add: example_edges_file_def)
  have "\<exists>b''. readEdges example_env example_edges_file zero_edge_lists 2 =
      Inr (b'', advance example_edges_file 16)"
    using readEdges_aligned [of example_env example_edges_file zero_edge_lists 2
        zero_edge_lists example_edges_file] L sz g a
    by simp
  then obtain b' where r: "readEdges example_env example_edges_file zero_edge_lists 2 =
      Inr (b', advance example_edges_file 16)"
    by blast
  have al: "(\<forall>i<2. arrays_at b' i = edge_fields (object_at (edge_layout example_env) example_edges_file i)) \<and>
      (\<forall>i\<ge>2. arrays_at b' i = arrays_at zero_edge_lists i)"
    using readEdges_aligned [of example_env example_edges_file zero_edge_lists 2 b'
        "advance example_edges_file 16"] L r
    by simp
  have "arrays_at b' 0 = edge_fields (object_at (edge_layout example_env) example_edges_file 0)"
    and "arrays_at b' 1 = edge_fields (object_at (edge_layout example_env) example_edges_file 1)"
    and "arrays_at b' 2 = arrays_at zero_edge_lists 2"
    using al by simp_all
  then have "arrays_at b' 0 = [1, 2, 3, 4, 5, 6, 7, 8]"
    and "arrays_at b' 1 = [11, 12, 13, 14, 15, 16, 17, 18]"
    and "arrays_at b' 2 = [0, 0, 0, 0, 0, 0, 0, 0]"
    by (simp_all add: object_at_def edge_fields_def example_env_def example_edge_layout_def
        example_edges_file_def slice_def zero_edge_lists_def arrays_at_def)
  then show ?thesis
    using r by blast
qed

subsection \<open>Node records\<close>

lemma coordinate_at_advance:
  "coordinate_at E (advance f (sizeof (node_layout E))) j = coordinate_at E f (Suc j)"
  by (simp add: coordinate_at_def object_at_advance)

lemma readNodes_loop_Inr:
  "layout_ok (node_layout E) \<Longrightarrow> readNodes_loop E f cl ol i n = Inr (cl', ol', f') \<Longrightarrow> i \<le> n \<Longrightarrow>
     f' = advance f ((n - i) * sizeof (node_layout E)) \<and>
     ol' = ol @ map (\<lambda>j. node_id (object_at (node_layout E) f j)) [0..<n - i] \<and>
     (\<forall>j. cl' j = (if i \<le> j \<and> j < n then coordinate_at E f (j - i) else cl j)) \<and>
     (assertions E \<longrightarrow> (\<forall>j<n - i. IsValid E (coordinate_at E f j)))"
proof (induction E f cl ol i n rule: readNodes_loop.induct)
  case (1 E f cl ol i n)
  let ?L = "node_layout E"
  show ?case
  proof (cases "i < n")
    case False
    then have "readNodes_loop E f cl ol i n = Inr (cl, ol, f)"
      by (subst readNodes_loop.simps) simp
    then show ?thesis
      using "1.prems" False by auto
  next
    case True
    obtain d f1 where r: "readInto_ref E ?L f = Inr (d, f1)"
      using "1.prems"(2) True
      by (auto simp: readNodes_loop.simps [of E f cl ol i n] split: sum.splits)
    have ro: "d = object_at ?L f 0" "f1 = advance f (sizeof ?L)"
      using readInto_ref_object [OF "1.prems"(1) r] by simp_all
    let ?c = "Coordinate (lon d) (lat d)"
    have c: "?c = coordinate_at E f 0"
      using ro by (simp add: coordinate_at_def)
    have na: "\<not> (assertions E \<and> \<not> IsValid E ((cl(i := ?c)) i))"
      using "1.prems"(2) True r
      by (auto simp: readNodes_loop.simps [of E f cl ol i n] split: if_splits)
    have rec: "readNodes_loop E f1 (cl(i := ?c)) (ol @ [node_id d]) (Suc i) n = Inr (cl', ol', f')"
      using "1.prems"(2) True r na
      by (simp add: readNodes_loop.simps [of E f cl ol i n] split: if_splits)
    have ih: "f' = advance f1 ((n - Suc i) * sizeof ?L) \<and>
        ol' = (ol @ [node_id d]) @ map (\<lambda>j. node_id (object_at ?L f1 j)) [0..<n - Suc i] \<and>
        (\<forall>j. cl' j = (if Suc i \<le> j \<and> j < n then coordinate_at E f1 (j - Suc i) else (cl(i := ?c)) j)) \<and>
        (assertions E \<longrightarrow> (\<forall>j<n - Suc i. IsValid E (coordinate_at E f1 j)))"
      using "1.IH" [OF True r refl na "1.prems"(1) rec] True by simp
    have ni: "n - i = Suc (n - Suc i)"
      using True by simp
    have "sizeof ?L + (n - Suc i) * sizeof ?L = (n - i) * sizeof ?L"
      using ni by simp
    then have f': "f' = advance f ((n - i) * sizeof ?L)"
      using ih ro by simp
    have "[0..<n - i] = 0 # map Suc [0..<n - Suc i]"
      unfolding ni by (simp add: upt_conv_Cons map_Suc_upt del: upt_Suc)
    then have ol': "ol' = ol @ map (\<lambda>j. node_id (object_at ?L f j)) [0..<n - i]"
      using ih ro by (simp add: object_at_advance comp_def)
    have cl': "cl' j = (if i \<le> j \<and> j < n then coordinate_at E f (j - i) else cl j)" for j
    proof (cases "j = i")
      case True
      then show ?thesis using ih c \<open>i < n\<close> by simp
    next
      case False
      then show ?thesis
        using ih ro by (auto simp: coordinate_at_advance Suc_diff_Suc le_Suc_eq)
    qed
    have v: "assertions E \<longrightarrow> (\<forall>j<n - i. IsValid E (coordinate_at E f j))"
    proof (intro impI allI)
      fix j
      assume as: "assertions E" and j: "j < n - i"
      show "IsValid E (coordinate_at E f j)"
      proof (cases j)
        case 0
        then show ?thesis using na as c by simp
      next
        case (Suc j')
        then have "j' < n - Suc i" using j by simp
        then have "IsValid E (coordinate_at E f1 j')" using ih as by simp
        then show ?thesis using Suc ro by (simp add: coordinate_at_advance)
      qed
    qed
    show ?thesis
      using f' ol' cl' v by simp
  qed
qed


lemma readNodes_loop_assert:
  "layout_ok (node_layout E) \<Longrightarrow> good (input_stream f) \<Longrightarrow> assertions E \<Longrightarrow> k < n - i \<Longrightarrow>
   Suc k * sizeof (node_layout E) \<le> bytes_available f \<Longrightarrow>
   \<forall>j<k. IsValid E (coordinate_at E f j) \<Longrightarrow> \<not> IsValid E (coordinate_at E f k) \<Longrightarrow>
   readNodes_loop E f cl ol i n = Inl (assertion_failure ''coordinate_list[i].IsValid()'')"
proof (induction k arbitrary: f cl ol i)
  case 0
  let ?L = "node_layout E"
  have r: "readInto_ref E ?L f = Inr (object_at ?L f 0, advance f (sizeof ?L))"
    using readInto_ref_ok [of ?L f E] "0.prems" by (simp add: object_at_def)
  show ?case
    using "0.prems" r
    by (simp add: readNodes_loop.simps [of E f cl ol i n] coordinate_at_def)
next
  case (Suc k)
  let ?L = "node_layout E"
  have fits: "sizeof ?L \<le> bytes_available f"
    using Suc.prems(5) by simp
  have r: "readInto_ref E ?L f = Inr (object_at ?L f 0, advance f (sizeof ?L))"
    using readInto_ref_ok [of ?L f E] Suc.prems fits by (simp add: object_at_def)
  have v0: "IsValid E (coordinate_at E f 0)"
    using Suc.prems(6) by simp
  have step: "readNodes_loop E f cl ol i n =
      readNodes_loop E (advance f (sizeof ?L))
        (cl(i := coordinate_at E f 0)) (ol @ [node_id (object_at ?L f 0)]) (Suc i) n"
  proof -
    have "i < n" using Suc.prems(4) by simp
    then show ?thesis
      using r v0 by (simp add: readNodes_loop.simps [of E f cl ol i n] coordinate_at_def)
  qed
  have "readNodes_loop E (advance f (sizeof ?L))
        (cl(i := coordinate_at E f 0)) (ol @ [node_id (object_at ?L f 0)]) (Suc i) n =
      Inl (assertion_failure ''coordinate_list[i].IsValid()'')"
  proof (rule Suc.IH)
    show "layout_ok ?L" by (rule Suc.prems(1))
    show "good (input_stream (advance f (sizeof ?L)))" using Suc.prems(2) by simp
    show "assertions E" by (rule Suc.prems(3))
    show "k < n - Suc i" using Suc.prems(4) by simp
    show "Suc k * sizeof ?L \<le> bytes_available (advance f (sizeof ?L))"
      using Suc.prems(5) by simp
    show "\<forall>j<k. IsValid E (coordinate_at E (advance f (sizeof ?L)) j)"
      using Suc.prems(6) by (simp add: coordinate_at_advance)
    show "\<not> IsValid E (coordinate_at E (advance f (sizeof ?L)) k)"
      using Suc.prems(7) by (simp add: coordinate_at_advance)
  qed
  then show ?case
    using step by simp
qed

lemma readNodes_loop_ok:
  "layout_ok (node_layout E) \<Longrightarrow> good (input_stream f) \<Longrightarrow>
   (n - i) * sizeof (node_layout E) \<le> bytes_available f \<Longrightarrow>
   assertions E \<longrightarrow> (\<forall>j<n - i. IsValid E (coordinate_at E f j)) \<Longrightarrow>
   \<exists>cl' ol'. readNodes_loop E f cl ol i n =
     Inr (cl', ol', advance f ((n - i) * sizeof (node_layout E)))"
proof (induction E f cl ol i n rule: readNodes_loop.induct)
  case (1 E f cl ol i n)
  let ?L = "node_layout E"
  show ?case
  proof (cases "i < n")
    case False
    then show ?thesis
      by (simp add: readNodes_loop.simps [of E f cl ol i n])
  next
    case True
    have ni: "n - i = Suc (n - Suc i)"
      using True by simp
    have split: "(n - i) * sizeof ?L = sizeof ?L + (n - Suc i) * sizeof ?L"
      using ni by simp
    then have fits: "sizeof ?L \<le> bytes_available f"
      using "1.prems"(3) by simp
    have r: "readInto_ref E ?L f = Inr (object_at ?L f 0, advance f (sizeof ?L))"
      using readInto_ref_ok [OF "1.prems"(1,2) fits, of E] by (simp add: object_at_def)
    have na: "\<not> (assertions E \<and>
        \<not> IsValid E ((cl(i := Coordinate (lon (object_at ?L f 0)) (lat (object_at ?L f 0)))) i))"
      using "1.prems"(4) ni by (auto simp: coordinate_at_def)
    have rest: "(n - Suc i) * sizeof ?L \<le> bytes_available (advance f (sizeof ?L))"
      using "1.prems"(3) split by simp
    have valid: "assertions E \<longrightarrow>
        (\<forall>j<n - Suc i. IsValid E (coordinate_at E (advance f (sizeof ?L)) j))"
      using "1.prems"(4) ni by (simp add: coordinate_at_advance)
    have g: "good (input_stream (advance f (sizeof ?L)))"
      using "1.prems"(2) by simp
    let ?cl1 = "cl(i := Coordinate (lon (object_at ?L f 0)) (lat (object_at ?L f 0)))"
    let ?ol1 = "ol @ [node_id (object_at ?L f 0)]"
    have ih: "\<exists>cl' ol'. readNodes_loop E (advance f (sizeof ?L)) ?cl1 ?ol1 (Suc i) n =
        Inr (cl', ol', advance (advance f (sizeof ?L)) ((n - Suc i) * sizeof ?L))"
      by (rule "1.IH" [OF True r refl na "1.prems"(1) g rest valid])
    have step: "readNodes_loop E f cl ol i n =
        readNodes_loop E (advance f (sizeof ?L)) ?cl1 ?ol1 (Suc i) n"
      using True r na by (auto simp: readNodes_loop.simps [of E f cl ol i n])
    show ?thesis
      unfolding step split using ih by simp
  qed
qed

text \<open>
  C7, as stated, fails: the check of the coordinate is a \<^verbatim>\<open>BOOST_ASSERT\<close>. In
  a build without assertions a node outside the valid range is decoded like
  any other and the run returns.
\<close>

theorem readNodes_invalid_accepted_counterexample:
  "\<not> IsValid release_env (Coordinate 200 0) \<and>
   \<not> isl (readNodes release_env bad_nodes_file zero_coordinates [] 2) \<and>
   fst (projr (readNodes release_env bad_nodes_file zero_coordinates [] 2)) 1 = Coordinate 200 0 \<and>
   fst (snd (projr (readNodes release_env bad_nodes_file zero_coordinates [] 2))) = [7, 8]"
  by (simp add: readNodes_def readNodes_loop.simps [of _ _ _ _ 0]
      readNodes_loop.simps [of _ _ _ _ "Suc 0"] readNodes_loop.simps [of _ _ _ _ "Suc (Suc 0)"]
      readNodes_loop.simps [of _ _ _ _ 2]
      readInto_ref_def readInto_def istream_read_def to_int64_def bad_nodes_file_def
      zero_coordinates_def
      release_env_def example_env_def example_node_layout_def file_of_def good_def slice_def Let_def)

text \<open>
  C7, amended. Every run of \<open>readNodes\<close> over \<open>n\<close> records that returns has
  stored the coordinate of record \<open>i\<close> at index \<open>i\<close> of the coordinate array
  and appended its identifier to the vector, where it stands at index \<open>i\<close>
  counted from the former end of the vector (index \<open>i\<close> itself when the
  vector was empty); nothing else is changed. With assertions compiled in,
  the run ends in a failed assertion at the first record whose coordinate is
  not valid, provided the records up to this one can be read, and a run that
  returns has seen valid coordinates only. Without assertions, or when all
  coordinates are valid, the run returns whenever the stream is good and
  holds \<open>n\<close> records.
\<close>

theorem readNodes_lockstep:
  "layout_ok (node_layout E) \<longrightarrow>
     (readNodes E f cl ol n = Inr (cl', ol', f') \<longrightarrow>
        ol' = ol @ map (\<lambda>i. node_id (object_at (node_layout E) f i)) [0..<n] \<and>
        (\<forall>i<n. cl' i = coordinate_at E f i \<and>
               ol' ! (length ol + i) = node_id (object_at (node_layout E) f i)) \<and>
        (\<forall>i\<ge>n. cl' i = cl i) \<and>
        (assertions E \<longrightarrow> (\<forall>i<n. IsValid E (cl' i))) \<and>
        f' = advance f (n * sizeof (node_layout E))) \<and>
     (good (input_stream f) \<and> assertions E \<and> k < n \<and>
      Suc k * sizeof (node_layout E) \<le> bytes_available f \<and>
      (\<forall>i<k. IsValid E (coordinate_at E f i)) \<and> \<not> IsValid E (coordinate_at E f k) \<longrightarrow>
        readNodes E f cl ol n = Inl (assertion_failure ''coordinate_list[i].IsValid()'')) \<and>
     (good (input_stream f) \<and> n * sizeof (node_layout E) \<le> bytes_available f \<and>
      (assertions E \<longrightarrow> (\<forall>i<n. IsValid E (coordinate_at E f i))) \<longrightarrow>
        (\<exists>cl'' ol''. readNodes E f cl ol n =
           Inr (cl'', ol'', advance f (n * sizeof (node_layout E)))))"
proof (intro impI conjI)
  assume L: "layout_ok (node_layout E)"
  {
    assume r: "readNodes E f cl ol n = Inr (cl', ol', f')"
    have *: "f' = advance f ((n - 0) * sizeof (node_layout E)) \<and>
       ol' = ol @ map (\<lambda>j. node_id (object_at (node_layout E) f j)) [0..<n - 0] \<and>
       (\<forall>j. cl' j = (if 0 \<le> j \<and> j < n then coordinate_at E f (j - 0) else cl j)) \<and>
       (assertions E \<longrightarrow> (\<forall>j<n - 0. IsValid E (coordinate_at E f j)))"
      using readNodes_loop_Inr [OF L, of f cl ol 0 n cl' ol' f'] r by (simp add: readNodes_def)
    show "ol' = ol @ map (\<lambda>i. node_id (object_at (node_layout E) f i)) [0..<n]"
      using * by simp
    then show "\<forall>i<n. cl' i = coordinate_at E f i \<and>
               ol' ! (length ol + i) = node_id (object_at (node_layout E) f i)"
      using * by (simp add: nth_append)
    show "\<forall>i\<ge>n. cl' i = cl i"
      using * by simp
    show "\<forall>i<n. IsValid E (cl' i)" if "assertions E"
      using * that by simp
    show "f' = advance f (n * sizeof (node_layout E))"
      using * by simp
  }
  {
    assume "good (input_stream f) \<and> assertions E \<and> k < n \<and>
      Suc k * sizeof (node_layout E) \<le> bytes_available f \<and>
      (\<forall>i<k. IsValid E (coordinate_at E f i)) \<and> \<not> IsValid E (coordinate_at E f k)"
    then show "readNodes E f cl ol n = Inl (assertion_failure ''coordinate_list[i].IsValid()'')"
      using readNodes_loop_assert [OF L, of f k n 0 cl ol] by (simp add: readNodes_def)
  }
  {
    assume "good (input_stream f) \<and> n * sizeof (node_layout E) \<le> bytes_available f \<and>
      (assertions E \<longrightarrow> (\<forall>i<n. IsValid E (coordinate_at E f i)))"
    then show "\<exists>cl'' ol''. readNodes E f cl ol n =
           Inr (cl'', ol'', advance f (n * sizeof (node_layout E)))"
      using readNodes_loop_ok [OF L, of f n 0 cl ol] by (simp add: readNodes_def)
  }
qed


theorem readNodes_lockstep_witness:
  "(\<exists>cl' ol'. readNodes example_env example_nodes_file zero_coordinates [] 2 =
       Inr (cl', ol', advance example_nodes_file 6) \<and>
     ol' = [7, 8] \<and> cl' 0 = Coordinate 10 20 \<and> cl' 1 = Coordinate 30 40 \<and>
     cl' 2 = Coordinate 0 0) \<and>
   readNodes example_env bad_nodes_file zero_coordinates [] 2 =
     Inl (assertion_failure ''coordinate_list[i].IsValid()'')"
proof -
  let ?E = example_env
  let ?sz = "sizeof (node_layout ?E)"
  have L: "layout_ok (node_layout ?E)" and sz: "?sz = 3" and as: "assertions ?E"
    by (simp_all add: example_env_def example_node_layout_def layout_ok_def)
  have g: "good (input_stream example_nodes_file)" "good (input_stream bad_nodes_file)"
    and a: "bytes_available example_nodes_file = 6" "bytes_available bad_nodes_file = 6"
    by (simp_all add: example_nodes_file_def bad_nodes_file_def)
  have o: "object_at (node_layout ?E) example_nodes_file 0 = \<lparr>lon = 10, lat = 20, node_id = 7\<rparr>"
    "object_at (node_layout ?E) example_nodes_file 1 = \<lparr>lon = 30, lat = 40, node_id = 8\<rparr>"
    by (simp_all add: object_at_def example_env_def example_node_layout_def
        example_nodes_file_def slice_def)
  have c: "coordinate_at ?E example_nodes_file 0 = Coordinate 10 20"
    "coordinate_at ?E example_nodes_file 1 = Coordinate 30 40"
    "coordinate_at ?E bad_nodes_file 0 = Coordinate 10 20"
    "coordinate_at ?E bad_nodes_file 1 = Coordinate 200 0"
    by (simp_all add: coordinate_at_def object_at_def example_env_def example_node_layout_def
        example_nodes_file_def bad_nodes_file_def slice_def)
  have iv: "IsValid ?E (Coordinate 10 20)" "IsValid ?E (Coordinate 30 40)"
    "\<not> IsValid ?E (Coordinate 200 0)"
    by (simp_all add: example_env_def)
  have two: "i < 2 \<Longrightarrow> i = 0 \<or> i = 1" for i :: nat
    by auto
  have allv: "\<forall>i<2. IsValid ?E (coordinate_at ?E example_nodes_file i)"
  proof (intro allI impI)
    fix i :: nat
    assume "i < 2"
    then have "i = 0 \<or> i = 1"
      by (rule two)
    then show "IsValid ?E (coordinate_at ?E example_nodes_file i)"
      using c iv by auto
  qed
  have h3: "good (input_stream example_nodes_file) \<and> 2 * ?sz \<le> bytes_available example_nodes_file \<and>
      (assertions ?E \<longrightarrow> (\<forall>i<2. IsValid ?E (coordinate_at ?E example_nodes_file i)))"
    using g a sz allv by simp
  have h2: "good (input_stream bad_nodes_file) \<and> assertions ?E \<and> (1::nat) < 2 \<and>
      Suc 1 * ?sz \<le> bytes_available bad_nodes_file \<and>
      (\<forall>i<1. IsValid ?E (coordinate_at ?E bad_nodes_file i)) \<and>
      \<not> IsValid ?E (coordinate_at ?E bad_nodes_file 1)"
    using g a sz as c iv by simp
  note T1 = readNodes_lockstep [where E = ?E and f = example_nodes_file and cl = zero_coordinates
        and ol = "[]" and n = 2, THEN mp, OF L]
  have "\<exists>cl'' ol''. readNodes ?E example_nodes_file zero_coordinates [] 2 =
      Inr (cl'', ol'', advance example_nodes_file (2 * ?sz))"
    by (rule T1 [THEN conjunct2, THEN conjunct2, THEN mp, OF h3])
  then obtain cl' ol' where r: "readNodes ?E example_nodes_file zero_coordinates [] 2 =
      Inr (cl', ol', advance example_nodes_file (2 * ?sz))"
    by blast
  note p = readNodes_lockstep [where E = ?E and f = example_nodes_file and cl = zero_coordinates
        and ol = "[]" and n = 2 and cl' = cl' and ol' = ol'
        and f' = "advance example_nodes_file (2 * ?sz)", THEN mp, OF L, THEN conjunct1, THEN mp, OF r]
  have p1: "ol' = [] @ map (\<lambda>i. node_id (object_at (node_layout ?E) example_nodes_file i)) [0..<2]"
    by (rule p [THEN conjunct1])
  have p2: "\<forall>i<2. cl' i = coordinate_at ?E example_nodes_file i"
    using p [THEN conjunct2, THEN conjunct1] by blast
  have p3: "\<forall>i\<ge>2. cl' i = zero_coordinates i"
    by (rule p [THEN conjunct2, THEN conjunct2, THEN conjunct1])
  have "[0..<2] = [0, Suc 0]"
    by (simp add: upt_rec)
  then have "ol' = [7, 8]"
    using p1 o by simp
  moreover have "cl' 0 = Coordinate 10 20" "cl' 1 = Coordinate 30 40"
    using p2 c by simp_all
  moreover have "cl' 2 = Coordinate 0 0"
    using p3 by (simp add: zero_coordinates_def)
  moreover have "readNodes ?E bad_nodes_file zero_coordinates [] 2 =
      Inl (assertion_failure ''coordinate_list[i].IsValid()'')"
    by (rule readNodes_lockstep [where E = ?E and f = bad_nodes_file and cl = zero_coordinates
        and ol = "[]" and n = 2 and k = 1, THEN mp, OF L, THEN conjunct2, THEN conjunct1, THEN mp, OF h2])
  ultimately show ?thesis
    using r sz by auto
qed

subsection \<open>Datasource names\<close>

lemma readDatasourceNames_loop_eq:
  "readDatasourceNames_loop lines d =
     \<lparr>names = names d @ concat lines,
      offsets = offsets d @
        map (\<lambda>i. length (names d) + length (concat (take i lines))) [0..<length lines],
      lengths = lengths d @ map length lines\<rparr>"
proof (induction lines arbitrary: d)
  case Nil
  then show ?case by simp
next
  case (Cons name lines)
  have "[0..<length (name # lines)] = 0 # map Suc [0..<length lines]"
    by (simp add: upt_conv_Cons map_Suc_upt del: upt_Suc)
  then show ?case
    by (simp add: Cons.IH comp_def del: upt_Suc)
qed

lemma length_concat_take_Suc:
  "i < length xs \<Longrightarrow>
   length (concat (take i xs)) + length (xs ! i) = length (concat (take (Suc i) xs))"
  by (simp add: take_Suc_conv_app_nth)

lemma length_concat_take_mono:
  "a \<le> b \<Longrightarrow> length (concat (take a xs)) \<le> length (concat (take b xs))"
proof -
  assume ab: "a \<le> b"
  have "take b xs = take a (take b xs) @ drop a (take b xs)"
    by (rule append_take_drop_id [symmetric])
  moreover have "take a (take b xs) = take a xs"
    using ab by (simp add: min_def)
  ultimately have "concat (take b xs) = concat (take a xs) @ concat (drop a (take b xs))"
    by (metis concat_append)
  then show ?thesis by simp
qed

lemma length_concat_take_le: "length (concat (take a xs)) \<le> length (concat xs)"
  using length_concat_take_mono [of a "length xs" xs]
  by (cases "a \<le> length xs") simp_all

lemma slice_concat_nth:
  "i < length xs \<Longrightarrow> slice (concat xs) (length (concat (take i xs))) (length (xs ! i)) = xs ! i"
proof -
  assume i: "i < length xs"
  have "xs = take i xs @ xs ! i # drop (Suc i) xs"
    using i by (rule id_take_nth_drop)
  then have "concat xs = concat (take i xs) @ xs ! i @ concat (drop (Suc i) xs)"
    by (metis concat.simps(2) concat_append)
  then show ?thesis
    by (simp add: slice_def)
qed

lemma readLines_example:
  "fst (readLines example_names_file) = [''osm'', ''lua profile'']"
  by (simp add: readLines_def example_names_file_def file_of_def readLines_loop.simps getline_def
      good_def Let_def split: prod.splits)


text \<open>
  C9. For every list of lines the table built by \<open>readDatasourceNames\<close> has
  one offset and one length per line; each pair lies within the flattened
  buffer, cuts out exactly the bytes of its line, and ends before any later
  window starts. The table of a file is the table of the lines that
  \<open>readLines\<close> finds in it.
\<close>

theorem readDatasourceNames_windows:
  "(let d = readDatasourceNames_loop lines \<lparr>names = [], offsets = [], lengths = []\<rparr> in
      length (offsets d) = length lines \<and> length (lengths d) = length lines \<and>
      (\<forall>i<length lines.
         offsets d ! i + lengths d ! i \<le> length (names d) \<and>
         slice (names d) (offsets d ! i) (lengths d ! i) = lines ! i \<and>
         (\<forall>j<length lines. i < j \<longrightarrow> offsets d ! i + lengths d ! i \<le> offsets d ! j))) \<and>
   fst (readDatasourceNames f) =
     readDatasourceNames_loop (fst (readLines f)) \<lparr>names = [], offsets = [], lengths = []\<rparr>"
proof (intro conjI)
  show "fst (readDatasourceNames f) =
     readDatasourceNames_loop (fst (readLines f)) \<lparr>names = [], offsets = [], lengths = []\<rparr>"
    by (simp add: readDatasourceNames_def split: prod.splits)
  let ?d = "readDatasourceNames_loop lines \<lparr>names = [], offsets = [], lengths = []\<rparr>"
  have d: "?d = \<lparr>names = concat lines,
      offsets = map (\<lambda>i. length (concat (take i lines))) [0..<length lines],
      lengths = map length lines\<rparr>"
    by (simp add: readDatasourceNames_loop_eq)
  have w: "offsets ?d ! i + lengths ?d ! i \<le> length (names ?d) \<and>
      slice (names ?d) (offsets ?d ! i) (lengths ?d ! i) = lines ! i \<and>
      (\<forall>j<length lines. i < j \<longrightarrow> offsets ?d ! i + lengths ?d ! i \<le> offsets ?d ! j)"
    if i: "i < length lines" for i
  proof (intro conjI allI impI)
    have s: "offsets ?d ! i + lengths ?d ! i = length (concat (take (Suc i) lines))"
      using i length_concat_take_Suc [OF i] by (simp add: d)
    show "offsets ?d ! i + lengths ?d ! i \<le> length (names ?d)"
      unfolding s using length_concat_take_le [of "Suc i" lines] by (simp add: d)
    show "slice (names ?d) (offsets ?d ! i) (lengths ?d ! i) = lines ! i"
      using slice_concat_nth [OF i] i by (simp add: d)
    fix j
    assume j: "j < length lines" and ij: "i < j"
    have "length (concat (take (Suc i) lines)) \<le> length (concat (take j lines))"
      using ij by (intro length_concat_take_mono) simp
    then show "offsets ?d ! i + lengths ?d ! i \<le> offsets ?d ! j"
      unfolding s using j by (simp add: d)
  qed
  show "let d = ?d in
      length (offsets d) = length lines \<and> length (lengths d) = length lines \<and>
      (\<forall>i<length lines.
         offsets d ! i + lengths d ! i \<le> length (names d) \<and>
         slice (names d) (offsets d ! i) (lengths d ! i) = lines ! i \<and>
         (\<forall>j<length lines. i < j \<longrightarrow> offsets d ! i + lengths d ! i \<le> offsets d ! j))"
    unfolding Let_def using w by (simp add: d)
qed

theorem readDatasourceNames_windows_witness:
  "fst (readDatasourceNames example_names_file) =
     \<lparr>names = ''osmlua profile'', offsets = [0, 3], lengths = [3, 11]\<rparr> \<and>
   slice ''osmlua profile'' 0 3 = ''osm'' \<and> slice ''osmlua profile'' 3 11 = ''lua profile''"
proof -
  let ?lines = "[''osm'', ''lua profile'']"
  note T = readDatasourceNames_windows [of ?lines example_names_file]
  have d: "readDatasourceNames_loop ?lines \<lparr>names = [], offsets = [], lengths = []\<rparr> =
      \<lparr>names = ''osmlua profile'', offsets = [0, 3], lengths = [3, 11]\<rparr>"
    by simp
  have r: "fst (readDatasourceNames example_names_file) =
      \<lparr>names = ''osmlua profile'', offsets = [0, 3], lengths = [3, 11]\<rparr>"
    using T [THEN conjunct2] readLines_example d by simp
  have w: "\<forall>i<length ?lines.
      slice ''osmlua profile'' ([0, 3] ! i) ([3, 11] ! i) = ?lines ! i"
    using T [THEN conjunct1] unfolding d Let_def by simp
  have "slice ''osmlua profile'' 0 3 = ''osm''"
    using w [rule_format, of 0] by simp
  moreover have "slice ''osmlua profile'' 3 11 = ''lua profile''"
    using w [rule_format, of 1] by simp
  ultimately show ?thesis
    using r by simp
qed

end
